theory Spec2Isabelle
  imports Main "HOL-Library.Word" "HOL-Library.Log_Nat"
begin

unbundle bit_operations_syntax

section \<open>Data model of ddscubemap.cpp\<close>

text \<open>
  A file is a list of bytes. All header fields are \<open>uint32_t\<close>. The source overlays the
  struct \<open>DDSFileHeader\<close> on the bytes 4..127 of the buffer; the struct has 31 fields of
  four bytes each and no padding, and the DDS container stores them little-endian, so the
  overlay is modelled as a field-by-field little-endian decode of a 124-byte window.
\<close>

type_synonym byte = "8 word"
type_synonym u32 = "32 word"

record DDSPixelFormat =
  PF_Size :: u32
  PF_Flags :: u32
  FourCC :: u32
  RGBBitCount :: u32
  RBitMask :: u32
  GBitMask :: u32
  BBitMask :: u32
  ABitMask :: u32

record DDSFileHeader =
  Size :: u32
  Flags :: u32
  Height :: u32
  Width :: u32
  PitchOrLinearSize :: u32
  Depth :: u32
  MipMapCount :: u32
  Reserved1 :: "u32 list"
  PixelFormatDef :: DDSPixelFormat
  Caps :: u32
  Caps2 :: u32
  Caps3 :: u32
  Caps4 :: u32
  Reserved2 :: u32

text \<open>\<open>enum { DDSCompleteCubemap = 0xFE00 }\<close>\<close>

definition DDSCompleteCubemap :: u32 where
  "DDSCompleteCubemap = 0xFE00"

text \<open>\<open>bool IscompleteCubemap() const { return (Caps2 & DDSCompleteCubemap) != 0; }\<close>\<close>

definition IscompleteCubemap :: "DDSFileHeader \<Rightarrow> bool" where
  "IscompleteCubemap h = ((Caps2 h AND DDSCompleteCubemap) \<noteq> 0)"

subsection \<open>Little-endian words in a byte buffer\<close>

definition get_u32 :: "byte list \<Rightarrow> nat \<Rightarrow> u32" where
  "get_u32 buf off =
     ucast (buf ! off) OR push_bit 8 (ucast (buf ! (off + 1)))
       OR push_bit 16 (ucast (buf ! (off + 2))) OR push_bit 24 (ucast (buf ! (off + 3)))"

definition put_u32 :: "u32 \<Rightarrow> byte list" where
  "put_u32 w = [ucast w, ucast (drop_bit 8 w), ucast (drop_bit 16 w), ucast (drop_bit 24 w)]"

text \<open>
  The struct as read from a window of 124 bytes (\<open>*(DDSFileHeader* )&aBuffer[4]\<close> is this
  function applied to the bytes 4..127 of the buffer), at the offsets the field order of
  the struct gives: \<open>Reserved1\<close> is eleven words from offset 28, \<open>PixelFormatDef\<close> starts
  at 72, \<open>Caps2\<close> is at 108.
\<close>

definition DDSPixelFormat_of_bytes :: "byte list \<Rightarrow> nat \<Rightarrow> DDSPixelFormat" where
  "DDSPixelFormat_of_bytes hb off =
     \<lparr> PF_Size = get_u32 hb off, PF_Flags = get_u32 hb (off + 4),
       FourCC = get_u32 hb (off + 8), RGBBitCount = get_u32 hb (off + 12),
       RBitMask = get_u32 hb (off + 16), GBitMask = get_u32 hb (off + 20),
       BBitMask = get_u32 hb (off + 24), ABitMask = get_u32 hb (off + 28) \<rparr>"

definition DDSFileHeader_of_bytes :: "byte list \<Rightarrow> DDSFileHeader" where
  "DDSFileHeader_of_bytes hb =
     \<lparr> Size = get_u32 hb 0, Flags = get_u32 hb 4, Height = get_u32 hb 8,
       Width = get_u32 hb 12, PitchOrLinearSize = get_u32 hb 16, Depth = get_u32 hb 20,
       MipMapCount = get_u32 hb 24,
       Reserved1 = map (\<lambda>i. get_u32 hb (28 + 4 * i)) [0..<11],
       PixelFormatDef = DDSPixelFormat_of_bytes hb 72,
       Caps = get_u32 hb 104, Caps2 = get_u32 hb 108, Caps3 = get_u32 hb 112,
       Caps4 = get_u32 hb 116, Reserved2 = get_u32 hb 120 \<rparr>"

text \<open>The struct as written by \<open>aResFile.write ((const char* )&aResHeader, sizeof(aResHeader))\<close>.\<close>

definition words_of_DDSPixelFormat :: "DDSPixelFormat \<Rightarrow> u32 list" where
  "words_of_DDSPixelFormat p =
     [PF_Size p, PF_Flags p, FourCC p, RGBBitCount p, RBitMask p, GBitMask p, BBitMask p,
      ABitMask p]"

definition words_of_DDSFileHeader :: "DDSFileHeader \<Rightarrow> u32 list" where
  "words_of_DDSFileHeader h =
     [Size h, Flags h, Height h, Width h, PitchOrLinearSize h, Depth h, MipMapCount h]
       @ Reserved1 h @ words_of_DDSPixelFormat (PixelFormatDef h)
       @ [Caps h, Caps2 h, Caps3 h, Caps4 h, Reserved2 h]"

definition bytes_of_DDSFileHeader :: "DDSFileHeader \<Rightarrow> byte list" where
  "bytes_of_DDSFileHeader h = concat (map put_u32 (words_of_DDSFileHeader h))"

subsection \<open>The mip level count (lines 140 to 142)\<close>

text \<open>
  \<open>for (uint32_t aDimIter = aMaxDim; aDimIter > 1; ++aNbMipComplete, aDimIter /= 2) {}\<close>
  on 32-bit unsigned counters.
\<close>

function mip_loop :: "u32 \<Rightarrow> u32 \<Rightarrow> u32" where
  "mip_loop aNbMipComplete aDimIter =
     (if aDimIter > 1 then mip_loop (aNbMipComplete + 1) (aDimIter div 2)
      else aNbMipComplete)"
  by pat_completeness auto
termination
proof (relation "measure (\<lambda>(n, d). unat d)")
  show "wf (measure (\<lambda>(n :: u32, d :: u32). unat d))"
    by simp
next
  fix aNbMipComplete aDimIter :: u32
  assume "1 < aDimIter"
  then have "0 < unat aDimIter"
    by (simp add: word_less_nat_alt)
  then have "unat aDimIter div 2 < unat aDimIter"
    by simp
  then show "((aNbMipComplete + 1, aDimIter div 2), (aNbMipComplete, aDimIter))
      \<in> measure (\<lambda>(n, d). unat d)"
    by (simp add: unat_div)
qed

definition expectedMipCount :: "u32 \<Rightarrow> u32 \<Rightarrow> u32" where
  "expectedMipCount w h = mip_loop 1 (if h > w then h else w)"

text \<open>
  The count as the specification words it: halve the larger dimension (integer division)
  until 1 is reached and count every size met on the way, the size 1 included.
\<close>

fun halving_levels :: "nat \<Rightarrow> nat" where
  "halving_levels d = (if d \<le> 1 then 1 else Suc (halving_levels (d div 2)))"

section \<open>The run (lines 86 to 189 of main)\<close>

text \<open>
  The environment of a run. An input file is its path with the bytes a full read returns
  at the time the side is processed, or \<open>None\<close> when it cannot be opened or read in full
  (lines 99 to 116). The output device says whether the result file can be opened for
  writing and whether closing it succeeds; writes to an open stream succeed.
\<close>

record input_file =
  path :: string
  contents :: "byte list option"

record device =
  can_open :: bool
  can_close :: bool

text \<open>The error messages of the source; each is followed by \<open>return 1\<close>.\<close>

datatype error =
    WrongArguments \<comment> \<open>Syntax error: wrong number of arguments\<close>
  | UnableToRead string \<comment> \<open>Error: unable to read file 'path'\<close>
  | NotDDS string \<comment> \<open>Error: input file 'path' is not DDS\<close>
  | NotValidDDS string \<comment> \<open>Error: input file 'path' is not valid DDS\<close>
  | NotSuitableForCubemap string \<comment> \<open>Error: input file 'path' is not suitable for cubemap\<close>
  | InconsistentDefinition string \<comment> \<open>Error: input file 'path' has inconsistent definition\<close>
  | UnableToWrite string \<comment> \<open>Error: unable to write result file 'path'\<close>

text \<open>
  What is printed on \<open>std::cerr\<close>: the line \<open>Side #i WxH Compr: c NbMips: n\<close>, the
  warning \<open>incomplete mipmap level set n (expected m)\<close>, and the error messages.
\<close>

datatype message =
    SideInfo nat u32 u32 u32 u32
  | MipWarning u32 u32
  | Error error

text \<open>
  How a run ends early: \<open>return 1\<close> after an error message, or a fault, which the model
  makes a result of its own. \<open>OutOfBoundsRead\<close> is a read that finds no memory of the buffer:
  the comparison of four bytes through \<open>&aBuffer[0]\<close> while the vector has no storage at all,
  or, in branches that are proved never to be taken, a read of the header or of the payload
  beyond \<open>aSize\<close>. \<open>UninitialisedRead\<close> is a read of an element of \<open>anInHeaders\<close> that
  was never assigned.
\<close>

datatype fault =
    Return1 error
  | OutOfBoundsRead
  | UninitialisedRead

text \<open>
  \<open>std::ofstream aResFile\<close>: the bytes of the result file once it has been created, and
  the stream's failure state (\<open>!aResFile\<close>, \<open>!aResFile.good()\<close>).
\<close>

record ofstream =
  out_bytes :: "byte list option"
  failed :: bool

definition ofstream_open :: "device \<Rightarrow> ofstream \<Rightarrow> ofstream" where
  "ofstream_open dev s =
     (if can_open dev then s\<lparr>out_bytes := Some []\<rparr> else s\<lparr>failed := True\<rparr>)"

definition ofstream_write :: "ofstream \<Rightarrow> byte list \<Rightarrow> ofstream" where
  "ofstream_write s bs =
     (case out_bytes s of
        None \<Rightarrow> s\<lparr>failed := True\<rparr>
      | Some d \<Rightarrow> if failed s then s else s\<lparr>out_bytes := Some (d @ bs)\<rparr>)"

definition ofstream_close :: "device \<Rightarrow> ofstream \<Rightarrow> ofstream" where
  "ofstream_close dev s =
     (if out_bytes s = None \<or> \<not> can_close dev then s\<lparr>failed := True\<rparr> else s)"

text \<open>
  The state of \<open>main\<close> in the loop. \<open>std::vector<unsigned char> aBuffer\<close> is declared once
  before the loop (line 95) and reused by every side, so the bytes of its storage are part
  of the state: \<open>aBufferStorage\<close> is the memory the vector holds, which is empty until the
  first non-empty file is read and may be longer than the current \<open>aSize\<close>.
  \<open>read_beyond_aSize\<close> records that some read went beyond \<open>aSize\<close>, the size the vector
  has at that moment.
\<close>

record run_state =
  aResFile :: ofstream
  anInHeaders :: "nat \<rightharpoonup> DDSFileHeader"
  cerr :: "message list"
  aBufferStorage :: "byte list"
  read_beyond_aSize :: bool

definition init_state :: run_state where
  "init_state =
     \<lparr> aResFile = \<lparr> out_bytes = None, failed = False \<rparr>, anInHeaders = Map.empty, cerr = [],
       aBufferStorage = [], read_beyond_aSize = False \<rparr>"

text \<open>
  Lines 109 to 111: \<open>aBuffer.resize (aSize, 0)\<close> and the read of \<open>aSize\<close> bytes into it.
  The first \<open>aSize\<close> bytes of the storage become the file's bytes. A \<open>resize\<close> to a smaller
  size leaves the rest of the storage as it was, so the bytes of an earlier, longer file stay
  behind \<open>aSize\<close>; a \<open>resize\<close> to a larger size writes zeros that the read overwrites.
\<close>

definition fill_buffer :: "byte list \<Rightarrow> run_state \<Rightarrow> run_state" where
  "fill_buffer bytes st =
     st\<lparr>aBufferStorage := bytes @ drop (length bytes) (aBufferStorage st)\<rparr>"

definition fail_with :: "error \<Rightarrow> run_state \<Rightarrow> fault option \<times> run_state" where
  "fail_with e st = (Some (Return1 e), st\<lparr>cerr := cerr st @ [Error e]\<rparr>)"

text \<open>
  A read of \<open>n\<close> bytes of the buffer from offset \<open>off\<close>, as \<open>memcmp\<close>, the struct copy and
  \<open>write\<close> do it: \<open>None\<close> when a byte beyond the buffer's size would be read. Only reads
  of bytes are faults: taking the address \<open>&aBuffer[aSize]\<close> for a read or write of zero
  bytes (an empty file, an empty payload) is not.
\<close>

definition read_bytes :: "byte list \<Rightarrow> nat \<Rightarrow> nat \<Rightarrow> byte list option" where
  "read_bytes buf off n = (if off + n \<le> length buf then Some (take n (drop off buf)) else None)"

text \<open>The four characters \<open>"DDS "\<close>.\<close>

definition magic :: "byte list" where
  "magic = [0x44, 0x44, 0x53, 0x20]"

text \<open>Line 180: \<open>aResFile.write ((const char* )&aBuffer[128], aSize - 128)\<close>.\<close>

definition write_payload :: "byte list \<Rightarrow> run_state \<Rightarrow> fault option \<times> run_state" where
  "write_payload aBuffer st =
     (case read_bytes aBuffer 128 (length aBuffer - 128) of
        None \<Rightarrow> (Some OutOfBoundsRead, st)
      | Some payload \<Rightarrow> (None, st\<lparr>aResFile := ofstream_write (aResFile st) payload\<rparr>))"

text \<open>Lines 154 to 180: the first side opens the result and writes its header, the others
  are compared with the first header; then the payload is appended.\<close>

definition emit_side ::
  "device \<Rightarrow> string \<Rightarrow> nat \<Rightarrow> input_file \<Rightarrow> byte list \<Rightarrow> DDSFileHeader \<Rightarrow> run_state
    \<Rightarrow> fault option \<times> run_state" where
  "emit_side dev anOutput aSide inp aBuffer aSrcHeader st =
     (if aSide = 0 then
        let aResHeader = aSrcHeader\<lparr>Caps2 := Caps2 aSrcHeader OR DDSCompleteCubemap\<rparr>;
            opened = ofstream_open dev (aResFile st)
        in if failed opened then fail_with (UnableToWrite anOutput) (st\<lparr>aResFile := opened\<rparr>)
           else write_payload aBuffer
                  (st\<lparr>aResFile :=
                       ofstream_write (ofstream_write opened magic)
                         (bytes_of_DDSFileHeader aResHeader)\<rparr>)
      else
        (case anInHeaders st 0 of
           None \<Rightarrow> (Some UninitialisedRead, st)
         | Some aFirstHeader \<Rightarrow>
             if Width aSrcHeader \<noteq> Width aFirstHeader
                \<or> Height aSrcHeader \<noteq> Height aFirstHeader
                \<or> FourCC (PixelFormatDef aSrcHeader) \<noteq> FourCC (PixelFormatDef aFirstHeader)
             then fail_with (InconsistentDefinition (path inp)) st
             else write_payload aBuffer st))"

text \<open>Lines 125 to 152: the header is stored, validated, reported, its mip count compared
  with the complete count, and the side must be square.\<close>

definition check_side ::
  "device \<Rightarrow> string \<Rightarrow> nat \<Rightarrow> input_file \<Rightarrow> byte list \<Rightarrow> DDSFileHeader \<Rightarrow> run_state
    \<Rightarrow> fault option \<times> run_state" where
  "check_side dev anOutput aSide inp aBuffer aSrcHeader st0 =
     (let st1 = st0\<lparr>anInHeaders := (anInHeaders st0)(aSide \<mapsto> aSrcHeader)\<rparr>
      in if Size aSrcHeader \<noteq> 124
            \<or> Width aSrcHeader = 0
            \<or> Height aSrcHeader = 0
            \<or> PF_Size (PixelFormatDef aSrcHeader) \<noteq> 32
         then fail_with (NotValidDDS (path inp)) st1
         else
           let st2 = st1\<lparr>cerr := cerr st1 @
                        [SideInfo aSide (Width aSrcHeader) (Height aSrcHeader)
                           (FourCC (PixelFormatDef aSrcHeader)) (MipMapCount aSrcHeader)]\<rparr>;
               aNbMipComplete = expectedMipCount (Width aSrcHeader) (Height aSrcHeader);
               st3 = (if aNbMipComplete \<noteq> MipMapCount aSrcHeader
                      then st2\<lparr>cerr := cerr st2 @
                             [MipWarning (MipMapCount aSrcHeader) aNbMipComplete]\<rparr>
                      else st2)
           in if Width aSrcHeader \<noteq> Height aSrcHeader
              then fail_with (NotSuitableForCubemap (path inp)) st3
              else emit_side dev anOutput aSide inp aBuffer aSrcHeader st3)"

text \<open>
  Lines 99 to 125 for one side. The vector is resized to the file's size and filled by the
  read, so its elements are the file's bytes. In \<open>memcmp (..) != 0 || aSize < 128\<close> the
  comparison of four bytes is the left operand and is evaluated first, whatever \<open>aSize\<close> is.

  When the file has at least four bytes the comparison reads elements of the vector. When it
  has fewer, \<open>read_bytes\<close> gives \<open>None\<close>: the comparison reads beyond \<open>aSize\<close>, which is
  recorded, and what happens next depends on the storage. If the vector has no storage (no
  non-empty file was read before), \<open>&aBuffer[0]\<close> points to no memory and the run ends in the
  read. Otherwise the comparison reads the memory behind the file's bytes: the bytes an
  earlier file left in the storage, and unspecified bytes of the allocation where the storage
  is shorter than four bytes (the model compares the bytes the storage has). Whatever the
  comparison gives, control then reaches \<open>aSize < 128\<close>, which holds.
\<close>

definition process_side ::
  "device \<Rightarrow> string \<Rightarrow> nat \<Rightarrow> input_file \<Rightarrow> run_state \<Rightarrow> fault option \<times> run_state" where
  "process_side dev anOutput aSide inp st0 =
     (case contents inp of
        None \<Rightarrow> fail_with (UnableToRead (path inp)) st0
      | Some aBuffer \<Rightarrow>
          let st = fill_buffer aBuffer st0 in
          (case read_bytes aBuffer 0 4 of
             None \<Rightarrow>
               let st' = st\<lparr>read_beyond_aSize := True\<rparr>
               in if aBufferStorage st = [] then (Some OutOfBoundsRead, st')
                  else if take 4 (aBufferStorage st) \<noteq> magic \<or> length aBuffer < 128
                  then fail_with (NotDDS (path inp)) st'
                  else (Some OutOfBoundsRead, st')
           | Some tag \<Rightarrow>
               if tag \<noteq> magic \<or> length aBuffer < 128
               then fail_with (NotDDS (path inp)) st
               else
                 (case read_bytes aBuffer 4 124 of
                    None \<Rightarrow> (Some OutOfBoundsRead, st)
                  | Some hb \<Rightarrow>
                      check_side dev anOutput aSide inp aBuffer (DDSFileHeader_of_bytes hb) st)))"

text \<open>
  The loop \<open>for (size_t aSide = 0; aSide < 6; ++aSide)\<close> over \<open>anInput[aSide]\<close>: the list
  has six elements when the loop is entered (line 86), so the loop visits the elements of
  the list in order while counting \<open>aSide\<close> up; a \<open>return 1\<close> leaves it.
\<close>

fun for_sides ::
  "device \<Rightarrow> string \<Rightarrow> nat \<Rightarrow> input_file list \<Rightarrow> run_state \<Rightarrow> fault option \<times> run_state" where
  "for_sides dev anOutput aSide [] st = (None, st)"
| "for_sides dev anOutput aSide (inp # rest) st =
     (case process_side dev anOutput aSide inp st of
        (Some f, st') \<Rightarrow> (Some f, st')
      | (None, st') \<Rightarrow> for_sides dev anOutput (Suc aSide) rest st')"

text \<open>
  The program from line 86 on, given the positional arguments and the argument of \<open>-o\<close>
  that the argument loop collected. The result \<open>None\<close> is \<open>return 0\<close>.
\<close>

definition ddscubemap ::
  "device \<Rightarrow> input_file list \<Rightarrow> string \<Rightarrow> fault option \<times> run_state" where
  "ddscubemap dev anInput anOutput =
     (if length anInput \<noteq> 6 \<or> anOutput = [] then fail_with WrongArguments init_state
      else
        (case for_sides dev anOutput 0 anInput init_state of
           (Some f, st) \<Rightarrow> (Some f, st)
         | (None, st) \<Rightarrow>
             let closed = ofstream_close dev (aResFile st);
                 st' = st\<lparr>aResFile := closed\<rparr>
             in if failed closed then fail_with (UnableToWrite anOutput) st'
                else (None, st')))"

section \<open>Vocabulary for the statements\<close>

text \<open>
  The parts of an input file: the header is the struct overlaid at byte 4, the payload is
  everything from byte 128 on.
\<close>

definition file_header :: "byte list \<Rightarrow> DDSFileHeader" where
  "file_header buf = DDSFileHeader_of_bytes (take 124 (drop 4 buf))"

definition payload :: "byte list \<Rightarrow> byte list" where
  "payload buf = drop 128 buf"

definition input_bytes :: "input_file \<Rightarrow> byte list" where
  "input_bytes inp = (case contents inp of None \<Rightarrow> [] | Some buf \<Rightarrow> buf)"

definition input_header :: "input_file \<Rightarrow> DDSFileHeader" where
  "input_header inp = file_header (input_bytes inp)"

text \<open>The magic tag is present and the file has at least 128 bytes.\<close>

definition is_dds :: "byte list \<Rightarrow> bool" where
  "is_dds buf = (take 4 buf = magic \<and> 128 \<le> length buf)"

text \<open>The four checks of the specification's \<open>validate\<close>.\<close>

definition valid_header :: "DDSFileHeader \<Rightarrow> bool" where
  "valid_header h =
     (Size h = 124 \<and> PF_Size (PixelFormatDef h) = 32 \<and> Width h \<noteq> 0 \<and> Height h \<noteq> 0)"

text \<open>
  A side that is readable, tagged, long enough, valid, square, and of the width, height and
  format tag of the header \<open>h0\<close> (the header of the first side).
\<close>

definition good_side :: "DDSFileHeader \<Rightarrow> input_file \<Rightarrow> bool" where
  "good_side h0 inp =
     (case contents inp of
        None \<Rightarrow> False
      | Some buf \<Rightarrow>
          is_dds buf \<and> valid_header (file_header buf)
          \<and> Width (file_header buf) = Height (file_header buf)
          \<and> Width (file_header buf) = Width h0
          \<and> Height (file_header buf) = Height h0
          \<and> FourCC (PixelFormatDef (file_header buf)) = FourCC (PixelFormatDef h0))"

definition good_sides :: "input_file list \<Rightarrow> bool" where
  "good_sides anInput = list_all (good_side (input_header (hd anInput))) anInput"

text \<open>The sides before side \<open>i\<close> are good: the run gets as far as reading side \<open>i\<close>.\<close>

definition good_before :: "input_file list \<Rightarrow> nat \<Rightarrow> bool" where
  "good_before anInput i = list_all (good_side (input_header (hd anInput))) (take i anInput)"

text \<open>What a side that passes validation prints: its line, and the warning when the
  declared mip count is not the complete one.\<close>

definition side_log :: "nat \<Rightarrow> DDSFileHeader \<Rightarrow> message list" where
  "side_log aSide h =
     SideInfo aSide (Width h) (Height h) (FourCC (PixelFormatDef h)) (MipMapCount h)
     # (if expectedMipCount (Width h) (Height h) \<noteq> MipMapCount h
        then [MipWarning (MipMapCount h) (expectedMipCount (Width h) (Height h))] else [])"

fun sides_log :: "nat \<Rightarrow> input_file list \<Rightarrow> message list" where
  "sides_log aSide [] = []"
| "sides_log aSide (inp # rest) = side_log aSide (input_header inp) @ sides_log (Suc aSide) rest"

text \<open>The header of the result: the first header with the cubemap bits set in \<open>Caps2\<close>.\<close>

definition result_header :: "DDSFileHeader \<Rightarrow> DDSFileHeader" where
  "result_header h = h\<lparr>Caps2 := Caps2 h OR DDSCompleteCubemap\<rparr>"

text \<open>
  The result file as the specification describes it: the tag, the header of the first side
  with the cubemap bits set, and the payloads of the sides in the order of the arguments.
\<close>

definition assembled :: "input_file list \<Rightarrow> byte list" where
  "assembled anInput =
     magic @ bytes_of_DDSFileHeader (result_header (input_header (hd anInput)))
       @ concat (map (\<lambda>inp. payload (input_bytes inp)) anInput)"

text \<open>The state of the run before side \<open>i\<close> is read.\<close>

definition state_before :: "device \<Rightarrow> string \<Rightarrow> input_file list \<Rightarrow> nat \<Rightarrow> run_state" where
  "state_before dev anOutput anInput i = snd (for_sides dev anOutput 0 (take i anInput) init_state)"

subsection \<open>Example inputs\<close>

text \<open>
  A DXT1 header of a square texture with the given side length and declared mip count,
  no cubemap bit set, and a file made of the tag, a header and a payload.
\<close>

definition dxt1_header :: "u32 \<Rightarrow> u32 \<Rightarrow> DDSFileHeader" where
  "dxt1_header side mips =
     \<lparr> Size = 124, Flags = 0xA1007, Height = side, Width = side, PitchOrLinearSize = 0,
       Depth = 0, MipMapCount = mips, Reserved1 = replicate 11 0,
       PixelFormatDef = \<lparr> PF_Size = 32, PF_Flags = 4, FourCC = 0x31545844, RGBBitCount = 0,
         RBitMask = 0, GBitMask = 0, BBitMask = 0, ABitMask = 0 \<rparr>,
       Caps = 0x401008, Caps2 = 0, Caps3 = 0, Caps4 = 0, Reserved2 = 0 \<rparr>"

definition dds_file :: "string \<Rightarrow> DDSFileHeader \<Rightarrow> byte list \<Rightarrow> input_file" where
  "dds_file p h bytes = \<lparr> path = p, contents = Some (magic @ bytes_of_DDSFileHeader h @ bytes) \<rparr>"

definition six_sides :: "DDSFileHeader \<Rightarrow> input_file list" where
  "six_sides h =
     [dds_file ''px.dds'' h [1, 1], dds_file ''nx.dds'' h [2], dds_file ''py.dds'' h [],
      dds_file ''ny.dds'' h [4, 4, 4], dds_file ''pz.dds'' h [5], dds_file ''nz.dds'' h [6]]"

definition reliable :: device where
  "reliable = \<lparr> can_open = True, can_close = True \<rparr>"

section \<open>Lemmas\<close>

subsection \<open>Words and bytes\<close>

lemma le_bytes_u32:
  "(ucast (ucast w :: byte) OR push_bit 8 (ucast (ucast (drop_bit 8 w) :: byte))
     OR push_bit 16 (ucast (ucast (drop_bit 16 w) :: byte))
     OR push_bit 24 (ucast (ucast (drop_bit 24 w) :: byte)) :: u32) = w" (is "?L = w")
proof (rule bit_word_eqI)
  fix n
  assume "n < LENGTH(32)"
  then consider "n < 8" | "8 \<le> n" "n < 16" | "16 \<le> n" "n < 24" | "24 \<le> n" "n < 32"
    by fastforce
  then show "bit ?L n = bit w n"
    by cases (auto simp: bit_simps)
qed

lemma get_u32_put_u32: "get_u32 (put_u32 w @ rest) 0 = w"
  by (simp add: get_u32_def put_u32_def le_bytes_u32)

lemma length_put_u32: "length (put_u32 w) = 4"
  by (simp add: put_u32_def)

lemma get_u32_drop: "get_u32 buf (k + off) = get_u32 (drop k buf) off" if "k + off + 4 \<le> length buf"
  using that by (simp add: get_u32_def add.assoc)

lemma length_concat_put: "length (concat (map put_u32 ws)) = 4 * length ws"
  by (induction ws) (simp_all add: length_put_u32)

lemma get_u32_words:
  "i < length ws \<Longrightarrow> get_u32 (concat (map put_u32 ws) @ rest) (4 * i) = ws ! i"
proof (induction ws arbitrary: i)
  case Nil
  then show ?case by simp
next
  case (Cons w ws)
  show ?case
  proof (cases i)
    case 0
    then show ?thesis by (simp add: get_u32_put_u32)
  next
    case (Suc j)
    with Cons.prems have j: "j < length ws" by simp
    have "get_u32 (concat (map put_u32 (w # ws)) @ rest) (4 * i)
        = get_u32 (put_u32 w @ (concat (map put_u32 ws) @ rest)) (4 + 4 * j)"
      using Suc by simp
    also have "\<dots> = get_u32 (drop 4 (put_u32 w @ (concat (map put_u32 ws) @ rest))) (4 * j)"
      using j by (intro get_u32_drop) (simp add: length_put_u32 length_concat_put)
    also have "\<dots> = get_u32 (concat (map put_u32 ws) @ rest) (4 * j)"
      by (simp add: length_put_u32)
    also have "\<dots> = ws ! j"
      using j by (rule Cons.IH)
    finally show ?thesis using Suc by simp
  qed
qed

subsection \<open>The mip level loop\<close>

lemma floorlog_halve: "1 < d \<Longrightarrow> floorlog 2 d = Suc (floorlog 2 (d div 2))"
  by (subst compute_floorlog) simp

lemma mip_loop_floorlog:
  "mip_loop n d = n + of_nat (floorlog 2 (unat d) - 1)"
proof (induction n d rule: mip_loop.induct)
  case (1 n d)
  show ?case
  proof (cases "1 < d")
    case True
    then have d: "1 < unat d" by (simp add: word_less_nat_alt)
    then have "0 < unat d div 2"
      by simp
    then have pos: "0 < floorlog 2 (unat d div 2)"
      using floorlog_eq_zero_iff [of 2 "unat d div 2"] by simp
    have "mip_loop n d = mip_loop (n + 1) (d div 2)"
      using True by simp
    also have "\<dots> = n + 1 + of_nat (floorlog 2 (unat (d div 2)) - 1)"
      using True by (rule "1.IH")
    also have "\<dots> = n + of_nat (Suc (floorlog 2 (unat d div 2) - 1))"
      by (simp add: unat_div)
    also have "Suc (floorlog 2 (unat d div 2) - 1) = floorlog 2 (unat d) - 1"
      using pos floorlog_halve [OF d] by simp
    finally show ?thesis .
  next
    case False
    then have "unat d \<le> 1" by (simp add: word_less_nat_alt)
    then have "floorlog 2 (unat d) - 1 = 0"
      by (subst compute_floorlog) (auto simp: floorlog_eq_zero_iff)
    with False show ?thesis by simp
  qed
qed


declare mip_loop.simps [simp del] halving_levels.simps [simp del]

lemma floorlog_unat_le: "floorlog 2 (unat (d :: u32)) \<le> 32"
proof -
  have "unat d < 2 ^ 32"
    using unsigned_less [of d] by simp
  then show ?thesis
    by (simp add: floorlog_le_iff)
qed

lemma halving_levels_floorlog: "0 < d \<Longrightarrow> halving_levels d = floorlog 2 d"
proof (induction d rule: halving_levels.induct)
  case (1 d)
  show ?case
  proof (cases "d \<le> 1")
    case True
    with "1.prems" have "d = 1" by simp
    then show ?thesis
      using halving_levels.simps [of 1] by (simp add: compute_floorlog)
  next
    case False
    then have "0 < d div 2" by simp
    with False "1.IH" have "halving_levels (d div 2) = floorlog 2 (d div 2)"
      by simp
    with False show ?thesis
      by (subst halving_levels.simps) (simp add: floorlog_halve)
  qed
qed

lemma unat_mip_loop_1: "unat (mip_loop 1 d) = halving_levels (unat d)"
proof (cases "d = 0")
  case True
  then show ?thesis by (simp add: mip_loop.simps [of 1 0] halving_levels.simps [of 0])
next
  case False
  then have pos: "0 < unat d"
    by (simp add: unat_gt_0)
  then have "0 < floorlog 2 (unat d)"
    using floorlog_eq_zero_iff [of 2 "unat d"] by simp
  then have "mip_loop 1 d = of_nat (floorlog 2 (unat d))"
    by (simp add: mip_loop_floorlog)
  moreover have "unat (of_nat (floorlog 2 (unat d)) :: u32) = floorlog 2 (unat d)"
    using floorlog_unat_le [of d] by (simp add: unat_of_nat)
  ultimately show ?thesis
    using pos by (simp add: halving_levels_floorlog)
qed

lemma mip_loop_pow2: "k < 32 \<Longrightarrow> mip_loop 1 (2 ^ k) = 1 + of_nat k"
proof -
  assume k: "k < 32"
  then have "(2::nat) ^ k < 2 ^ 32"
    by (intro power_strict_increasing) simp_all
  then have "unat (2 ^ k :: u32) = 2 ^ k"
    by (intro of_nat_inverse) simp_all
  moreover have "floorlog 2 (2 ^ k) = Suc k"
    using floorlog_power [of 1 2 k] by (simp add: compute_floorlog)
  ultimately show ?thesis
    by (simp add: mip_loop_floorlog)
qed



subsection \<open>The cubemap bits\<close>

lemma mask_FE00: "(0xFE00 :: u32) = push_bit 9 (mask 7)"
  by (simp add: mask_eq_exp_minus_1)

lemma bit_FE00: "bit (0xFE00 :: u32) n \<longleftrightarrow> 9 \<le> n \<and> n < 16"
  unfolding mask_FE00 by (auto simp: bit_simps)

lemma and_FE00_iff:
  "(w AND 0xFE00 \<noteq> 0) =
     (bit w 9 \<or> bit w 10 \<or> bit w 11 \<or> bit w 12 \<or> bit w 13 \<or> bit w 14 \<or> bit w 15)"
  for w :: u32
proof -
  have "(x = 0) = (\<forall>n. \<not> bit x n)" for x :: u32
    by (auto intro: bit_word_eqI)
  then have "(w AND 0xFE00 \<noteq> 0) = (\<exists>n. bit (w AND 0xFE00) n)"
    by simp
  also have "\<dots> = (\<exists>n. bit w n \<and> 9 \<le> n \<and> n < 16)"
    unfolding bit_and_iff bit_FE00 ..
  also have "\<dots> = (\<exists>n \<in> {9, 10, 11, 12, 13, 14, 15}. bit w n)"
  proof -
    have "{n::nat. 9 \<le> n \<and> n < 16} = {9, 10, 11, 12, 13, 14, 15}"
      by auto
    then show ?thesis by blast
  qed
  finally show ?thesis by simp
qed

lemma IscompleteCubemap_iff_bits:
  "IscompleteCubemap h =
     (bit (Caps2 h) 9 \<or> bit (Caps2 h) 10 \<or> bit (Caps2 h) 11 \<or> bit (Caps2 h) 12
        \<or> bit (Caps2 h) 13 \<or> bit (Caps2 h) 14 \<or> bit (Caps2 h) 15)"
  by (simp add: IscompleteCubemap_def DDSCompleteCubemap_def and_FE00_iff)

lemma max_dim: "(if h > w then h else w) = max w h" for w h :: u32
  by (auto simp: max_def)

subsection \<open>Header bytes\<close>

lemma length_words_of_DDSFileHeader:
  "length (Reserved1 h) = 11 \<Longrightarrow> length (words_of_DDSFileHeader h) = 31"
  by (simp add: words_of_DDSFileHeader_def words_of_DDSPixelFormat_def)

lemma length_bytes_of_DDSFileHeader:
  "length (Reserved1 h) = 11 \<Longrightarrow> length (bytes_of_DDSFileHeader h) = 124"
  by (simp add: bytes_of_DDSFileHeader_def length_concat_put length_words_of_DDSFileHeader)

lemma length_Reserved1_of_bytes: "length (Reserved1 (DDSFileHeader_of_bytes hb)) = 11"
  by (simp add: DDSFileHeader_of_bytes_def)

lemma DDSFileHeader_of_bytes_inverse:
  assumes r: "length (Reserved1 h) = 11"
  shows "DDSFileHeader_of_bytes (bytes_of_DDSFileHeader h @ rest) = h"
proof -
  let ?b = "bytes_of_DDSFileHeader h @ rest"
  let ?ws = "words_of_DDSFileHeader h"
  have g: "get_u32 ?b (4 * i) = ?ws ! i" if "i < 31" for i
    using that get_u32_words [of i ?ws rest]
    by (simp add: bytes_of_DDSFileHeader_def length_words_of_DDSFileHeader [OF r])
  have w: "?ws ! 0 = Size h" "?ws ! 1 = Flags h" "?ws ! 2 = Height h" "?ws ! 3 = Width h"
      "?ws ! 4 = PitchOrLinearSize h" "?ws ! 5 = Depth h" "?ws ! 6 = MipMapCount h"
      "?ws ! 18 = PF_Size (PixelFormatDef h)" "?ws ! 19 = PF_Flags (PixelFormatDef h)"
      "?ws ! 20 = FourCC (PixelFormatDef h)" "?ws ! 21 = RGBBitCount (PixelFormatDef h)"
      "?ws ! 22 = RBitMask (PixelFormatDef h)" "?ws ! 23 = GBitMask (PixelFormatDef h)"
      "?ws ! 24 = BBitMask (PixelFormatDef h)" "?ws ! 25 = ABitMask (PixelFormatDef h)"
      "?ws ! 26 = Caps h" "?ws ! 27 = Caps2 h" "?ws ! 28 = Caps3 h" "?ws ! 29 = Caps4 h"
      "?ws ! 30 = Reserved2 h"
    using r by (simp_all add: words_of_DDSFileHeader_def words_of_DDSPixelFormat_def nth_append)
  have "take 11 (drop 7 ?ws) = Reserved1 h"
    using r by (simp add: words_of_DDSFileHeader_def)
  then have mid: "?ws ! (7 + i) = Reserved1 h ! i" if "i < 11" for i
    using that r nth_take [of i 11 "drop 7 ?ws"]
    by (simp add: length_words_of_DDSFileHeader)
  have f: "Size (DDSFileHeader_of_bytes ?b) = Size h"
      "Flags (DDSFileHeader_of_bytes ?b) = Flags h"
      "Height (DDSFileHeader_of_bytes ?b) = Height h"
      "Width (DDSFileHeader_of_bytes ?b) = Width h"
      "PitchOrLinearSize (DDSFileHeader_of_bytes ?b) = PitchOrLinearSize h"
      "Depth (DDSFileHeader_of_bytes ?b) = Depth h"
      "MipMapCount (DDSFileHeader_of_bytes ?b) = MipMapCount h"
    using g [of 0] g [of 1] g [of 2] g [of 3] g [of 4] g [of 5] g [of 6] w
    by (simp_all add: DDSFileHeader_of_bytes_def)
  have c: "Caps (DDSFileHeader_of_bytes ?b) = Caps h"
      "Caps2 (DDSFileHeader_of_bytes ?b) = Caps2 h"
      "Caps3 (DDSFileHeader_of_bytes ?b) = Caps3 h"
      "Caps4 (DDSFileHeader_of_bytes ?b) = Caps4 h"
      "Reserved2 (DDSFileHeader_of_bytes ?b) = Reserved2 h"
    using g [of 26] g [of 27] g [of 28] g [of 29] g [of 30] w
    by (simp_all add: DDSFileHeader_of_bytes_def)
  have p: "DDSPixelFormat_of_bytes ?b 72 = PixelFormatDef h"
    using g [of 18] g [of 19] g [of 20] g [of 21] g [of 22] g [of 23] g [of 24] g [of 25] w
    by (simp add: DDSPixelFormat_of_bytes_def)
  have "get_u32 ?b (28 + 4 * i) = Reserved1 h ! i" if "i < 11" for i
  proof -
    have "get_u32 ?b (28 + 4 * i) = get_u32 ?b (4 * (7 + i))"
      by simp
    also have "\<dots> = ?ws ! (7 + i)"
      using that by (intro g) simp
    finally show ?thesis
      using that by (simp add: mid)
  qed
  then have "map (\<lambda>i. get_u32 ?b (28 + 4 * i)) [0..<11] = Reserved1 h"
    using r by (intro nth_equalityI) simp_all
  then have m: "Reserved1 (DDSFileHeader_of_bytes ?b) = Reserved1 h"
    by (simp add: DDSFileHeader_of_bytes_def)
  have pd: "PixelFormatDef (DDSFileHeader_of_bytes ?b) = PixelFormatDef h"
    using p by (simp add: DDSFileHeader_of_bytes_def)
  show ?thesis
    by (rule DDSFileHeader.equality) (simp_all add: f c m pd)
qed


lemma file_header_dds_bytes:
  assumes "length (Reserved1 h) = 11"
  shows "file_header (magic @ bytes_of_DDSFileHeader h @ rest) = h"
proof -
  have "take 124 (drop 4 (magic @ bytes_of_DDSFileHeader h @ rest)) = bytes_of_DDSFileHeader h"
    using length_bytes_of_DDSFileHeader [OF assms] by (simp add: magic_def)
  then show ?thesis
    using DDSFileHeader_of_bytes_inverse [OF assms, of "[]"] by (simp add: file_header_def)
qed

lemma is_dds_dds_bytes:
  "length (Reserved1 h) = 11 \<Longrightarrow> is_dds (magic @ bytes_of_DDSFileHeader h @ rest)"
  by (simp add: is_dds_def length_bytes_of_DDSFileHeader magic_def)

lemma payload_dds_bytes:
  "length (Reserved1 h) = 11 \<Longrightarrow> payload (magic @ bytes_of_DDSFileHeader h @ rest) = rest"
  by (simp add: payload_def length_bytes_of_DDSFileHeader magic_def)

lemma bytes_of_le_u32:
  fixes a b c d :: byte
  defines "w \<equiv> (ucast a OR push_bit 8 (ucast b) OR push_bit 16 (ucast c)
      OR push_bit 24 (ucast d) :: u32)"
  shows "ucast w = a" "ucast (drop_bit 8 w) = b" "ucast (drop_bit 16 w) = c"
    "ucast (drop_bit 24 w) = d"
proof -
  show "ucast w = a"
    unfolding w_def by (rule bit_word_eqI) (auto simp: bit_simps dest: bit_imp_le_length)
  show "ucast (drop_bit 8 w) = b"
    unfolding w_def by (rule bit_word_eqI) (auto simp: bit_simps dest: bit_imp_le_length)
  show "ucast (drop_bit 16 w) = c"
    unfolding w_def by (rule bit_word_eqI) (auto simp: bit_simps dest: bit_imp_le_length)
  show "ucast (drop_bit 24 w) = d"
    unfolding w_def by (rule bit_word_eqI) (auto simp: bit_simps dest: bit_imp_le_length)
qed

lemma take_4_drop:
  "off + 4 \<le> length buf \<Longrightarrow>
   take 4 (drop off buf) = [buf ! off, buf ! (off + 1), buf ! (off + 2), buf ! (off + 3)]"
  by (auto simp: list_eq_iff_nth_eq less_Suc_eq numeral_eq_Suc add.commute)

lemma put_u32_get_u32:
  "off + 4 \<le> length buf \<Longrightarrow> put_u32 (get_u32 buf off) = take 4 (drop off buf)"
proof -
  assume "off + 4 \<le> length buf"
  then have "take 4 (drop off buf) = [buf ! off, buf ! (off + 1), buf ! (off + 2), buf ! (off + 3)]"
    by (rule take_4_drop)
  moreover have "put_u32 (get_u32 buf off) =
      [buf ! off, buf ! (off + 1), buf ! (off + 2), buf ! (off + 3)]"
    unfolding put_u32_def get_u32_def by (simp only: bytes_of_le_u32)
  ultimately show ?thesis
    by simp
qed

lemma concat_put_get:
  "4 * n \<le> length hb \<Longrightarrow>
   concat (map (\<lambda>j. put_u32 (get_u32 hb (4 * j))) [0..<n]) = take (4 * n) hb"
proof (induction n)
  case 0
  then show ?case by simp
next
  case (Suc n)
  then have "concat (map (\<lambda>j. put_u32 (get_u32 hb (4 * j))) [0..<Suc n]) =
      take (4 * n) hb @ take 4 (drop (4 * n) hb)"
    by (simp add: put_u32_get_u32)
  also have "\<dots> = take (4 * n + 4) hb"
    by (simp add: take_add)
  finally show ?case
    by (simp add: add.commute)
qed

lemma words_of_bytes:
  "words_of_DDSFileHeader (DDSFileHeader_of_bytes hb) = map (\<lambda>j. get_u32 hb (4 * j)) [0..<31]"
proof -
  have "[0..<31] = [0, 1, 2, 3, 4, 5, 6] @ map (\<lambda>i. 7 + i) [0..<11]
      @ [18, 19, 20, 21, 22, 23, 24, 25] @ [26, 27, 28, 29, 30 :: nat]"
    by (simp add: upt_rec [of _ "numeral _"] upt_rec [of 0])
  then show ?thesis
    by (simp add: words_of_DDSFileHeader_def DDSFileHeader_of_bytes_def
        words_of_DDSPixelFormat_def DDSPixelFormat_of_bytes_def comp_def algebra_simps)
qed

lemma bytes_of_DDSFileHeader_inverse:
  assumes "length hb = 124"
  shows "bytes_of_DDSFileHeader (DDSFileHeader_of_bytes hb) = hb"
proof -
  have "bytes_of_DDSFileHeader (DDSFileHeader_of_bytes hb) =
      concat (map (\<lambda>j. put_u32 (get_u32 hb (4 * j))) [0..<31])"
    by (simp only: bytes_of_DDSFileHeader_def words_of_bytes map_map comp_def)
  also have "\<dots> = take (4 * 31) hb"
    using assms by (intro concat_put_get) simp
  finally show ?thesis
    using assms by simp
qed

lemma take_concat_put:
  "take (4 * n) (concat (map put_u32 ws)) = concat (map put_u32 (take n ws))"
proof (induction ws arbitrary: n)
  case Nil
  then show ?case by simp
next
  case (Cons w ws)
  show ?case
  proof (cases n)
    case 0
    then show ?thesis by simp
  next
    case (Suc m)
    have "take (4 * Suc m) (put_u32 w @ concat (map put_u32 ws)) =
        put_u32 w @ take (4 * m) (concat (map put_u32 ws))"
      by (simp add: length_put_u32)
    with Suc Cons.IH [of m] show ?thesis
      by simp
  qed
qed

lemma drop_concat_put:
  "drop (4 * n) (concat (map put_u32 ws)) = concat (map put_u32 (drop n ws))"
proof (induction ws arbitrary: n)
  case Nil
  then show ?case by simp
next
  case (Cons w ws)
  show ?case
  proof (cases n)
    case 0
    then show ?thesis by simp
  next
    case (Suc m)
    have "drop (4 * Suc m) (put_u32 w @ concat (map put_u32 ws)) =
        drop (4 * m) (concat (map put_u32 ws))"
      by (simp add: length_put_u32)
    with Suc Cons.IH [of m] show ?thesis
      by simp
  qed
qed

lemma bytes_of_Caps2_update:
  assumes "length (Reserved1 h) = 11"
  shows "bytes_of_DDSFileHeader (h\<lparr>Caps2 := c\<rparr>) =
     take 108 (bytes_of_DDSFileHeader h) @ put_u32 c @ drop 112 (bytes_of_DDSFileHeader h)"
proof -
  let ?ws = "words_of_DDSFileHeader h"
  have "words_of_DDSFileHeader (h\<lparr>Caps2 := c\<rparr>) = take 27 ?ws @ [c] @ drop 28 ?ws"
    using assms by (simp add: words_of_DDSFileHeader_def words_of_DDSPixelFormat_def)
  then have "bytes_of_DDSFileHeader (h\<lparr>Caps2 := c\<rparr>) =
      concat (map put_u32 (take 27 ?ws)) @ put_u32 c @ concat (map put_u32 (drop 28 ?ws))"
    by (simp add: bytes_of_DDSFileHeader_def)
  also have "concat (map put_u32 (take 27 ?ws)) = take (4 * 27) (bytes_of_DDSFileHeader h)"
    by (simp only: take_concat_put bytes_of_DDSFileHeader_def)
  also have "concat (map put_u32 (drop 28 ?ws)) = drop (4 * 28) (bytes_of_DDSFileHeader h)"
    by (simp only: drop_concat_put bytes_of_DDSFileHeader_def)
  finally show ?thesis
    by simp
qed

lemma bytes_of_file_header:
  "128 \<le> length buf \<Longrightarrow> bytes_of_DDSFileHeader (file_header buf) = take 124 (drop 4 buf)"
  by (simp add: file_header_def bytes_of_DDSFileHeader_inverse)

lemma bytes_of_result_header:
  assumes "128 \<le> length buf"
  shows "bytes_of_DDSFileHeader (result_header (file_header buf)) =
     take 108 (drop 4 buf) @ put_u32 (get_u32 buf 112 OR 0xFE00) @ take 12 (drop 116 buf)"
proof -
  have r: "length (Reserved1 (file_header buf)) = 11"
    by (simp add: file_header_def length_Reserved1_of_bytes)
  have c: "Caps2 (file_header buf) = get_u32 buf 112"
    using assms by (simp add: file_header_def DDSFileHeader_of_bytes_def get_u32_def)
  have "take 108 (take 124 (drop 4 buf)) = take 108 (drop 4 buf)"
    by simp
  moreover have "drop 112 (take 124 (drop 4 buf)) = take 12 (drop 116 buf)"
    by (simp add: drop_take)
  ultimately show ?thesis
    using bytes_of_Caps2_update [OF r, of "Caps2 (file_header buf) OR 0xFE00"]
    by (simp add: result_header_def DDSCompleteCubemap_def bytes_of_file_header [OF assms] c)
qed

subsection \<open>One side\<close>

lemma fill_buffer_simps [simp]:
  "aResFile (fill_buffer bytes st) = aResFile st"
  "anInHeaders (fill_buffer bytes st) = anInHeaders st"
  "cerr (fill_buffer bytes st) = cerr st"
  "read_beyond_aSize (fill_buffer bytes st) = read_beyond_aSize st"
  "aBufferStorage (fill_buffer bytes st) = bytes @ drop (length bytes) (aBufferStorage st)"
  by (simp_all add: fill_buffer_def)

lemma process_side_decoded:
  "contents inp = Some buf \<Longrightarrow> is_dds buf \<Longrightarrow>
   process_side dev out k inp st =
     check_side dev out k inp buf (file_header buf) (fill_buffer buf st)"
  by (simp add: process_side_def read_bytes_def is_dds_def file_header_def)

lemma write_payload_in_bounds:
  "128 \<le> length buf \<Longrightarrow>
   write_payload buf st = (None, st\<lparr>aResFile := ofstream_write (aResFile st) (payload buf)\<rparr>)"
  by (simp add: write_payload_def read_bytes_def payload_def)

lemma check_side_first:
  assumes "valid_header h" "Width h = Height h" "can_open dev" "\<not> failed (aResFile st)"
    "128 \<le> length buf"
  shows "check_side dev out 0 inp buf h st =
     (None, st\<lparr>aResFile := (aResFile st)\<lparr>out_bytes :=
                   Some (magic @ bytes_of_DDSFileHeader (result_header h) @ payload buf)\<rparr>,
               anInHeaders := (anInHeaders st)(0 \<mapsto> h),
               cerr := cerr st @ side_log 0 h\<rparr>)"
  using assms
  by (simp add: check_side_def emit_side_def valid_header_def Let_def ofstream_open_def
      ofstream_write_def write_payload_in_bounds side_log_def result_header_def)

lemma check_side_next:
  assumes "valid_header h" "Width h = Height h" "0 < k" "anInHeaders st 0 = Some h0"
    "Width h = Width h0" "Height h = Height h0"
    "FourCC (PixelFormatDef h) = FourCC (PixelFormatDef h0)"
    "128 \<le> length buf"
  shows "check_side dev out k inp buf h st =
     (None, st\<lparr>aResFile := ofstream_write (aResFile st) (payload buf),
               anInHeaders := (anInHeaders st)(k \<mapsto> h),
               cerr := cerr st @ side_log k h\<rparr>)"
  using assms
  by (simp add: check_side_def emit_side_def valid_header_def Let_def
      write_payload_in_bounds side_log_def)

subsection \<open>Good sides pass\<close>

lemma good_side_bytes:
  assumes "good_side h0 inp"
  shows "contents inp = Some (input_bytes inp)" "is_dds (input_bytes inp)"
    "128 \<le> length (input_bytes inp)"
    "valid_header (input_header inp)" "Width (input_header inp) = Height (input_header inp)"
    "Width (input_header inp) = Width h0" "Height (input_header inp) = Height h0"
    "FourCC (PixelFormatDef (input_header inp)) = FourCC (PixelFormatDef h0)"
  using assms
  by (auto simp: good_side_def input_bytes_def input_header_def is_dds_def split: option.splits)

lemma process_side_good_first:
  assumes "good_side h0 inp" "can_open dev" "\<not> failed (aResFile st)"
  shows "process_side dev out 0 inp st =
     (None, (fill_buffer (input_bytes inp) st)\<lparr>aResFile := (aResFile st)\<lparr>out_bytes :=
                   Some (magic @ bytes_of_DDSFileHeader (result_header (input_header inp))
                           @ payload (input_bytes inp))\<rparr>,
               anInHeaders := (anInHeaders st)(0 \<mapsto> input_header inp),
               cerr := cerr st @ side_log 0 (input_header inp)\<rparr>)"
proof -
  note g = good_side_bytes [OF assms(1)]
  have "process_side dev out 0 inp st =
      check_side dev out 0 inp (input_bytes inp) (input_header inp)
        (fill_buffer (input_bytes inp) st)"
    using g(1,2) by (simp add: process_side_decoded input_header_def)
  then show ?thesis
    using g(3,4,5) assms(2,3) by (simp add: check_side_first)
qed

lemma process_side_good_next:
  assumes "good_side h0 inp" "0 < k" "anInHeaders st 0 = Some h0"
  shows "process_side dev out k inp st =
     (None, (fill_buffer (input_bytes inp) st)
              \<lparr>aResFile := ofstream_write (aResFile st) (payload (input_bytes inp)),
               anInHeaders := (anInHeaders st)(k \<mapsto> input_header inp),
               cerr := cerr st @ side_log k (input_header inp)\<rparr>)"
proof -
  note g = good_side_bytes [OF assms(1)]
  have "process_side dev out k inp st =
      check_side dev out k inp (input_bytes inp) (input_header inp)
        (fill_buffer (input_bytes inp) st)"
    using g(1,2) by (simp add: process_side_decoded input_header_def)
  then show ?thesis
    using g(3-8) assms(2,3) by (simp add: check_side_next)
qed

lemma for_sides_good_next:
  assumes "list_all (good_side h0) xs" "0 < k" "anInHeaders st 0 = Some h0"
    "out_bytes (aResFile st) = Some w" "\<not> failed (aResFile st)" "aBufferStorage st \<noteq> []"
  shows "\<exists>st'. for_sides dev out k xs st = (None, st')
     \<and> out_bytes (aResFile st') = Some (w @ concat (map (\<lambda>inp. payload (input_bytes inp)) xs))
     \<and> \<not> failed (aResFile st') \<and> anInHeaders st' 0 = Some h0
     \<and> cerr st' = cerr st @ sides_log k xs \<and> aBufferStorage st' \<noteq> []
     \<and> read_beyond_aSize st' = read_beyond_aSize st"
  using assms
proof (induction xs arbitrary: k st w)
  case Nil
  then show ?case by simp
next
  case (Cons inp rest)
  let ?st1 = "(fill_buffer (input_bytes inp) st)
              \<lparr>aResFile := ofstream_write (aResFile st) (payload (input_bytes inp)),
               anInHeaders := (anInHeaders st)(k \<mapsto> input_header inp),
               cerr := cerr st @ side_log k (input_header inp)\<rparr>"
  from Cons.prems have step: "process_side dev out k inp st = (None, ?st1)"
    by (intro process_side_good_next [of h0]) simp_all
  have "list_all (good_side h0) rest" "0 < Suc k" "anInHeaders ?st1 0 = Some h0"
      "out_bytes (aResFile ?st1) = Some (w @ payload (input_bytes inp))"
      "\<not> failed (aResFile ?st1)" "aBufferStorage ?st1 \<noteq> []"
    using Cons.prems by (simp_all add: ofstream_write_def)
  from Cons.IH [OF this] step show ?case
    by auto
qed

lemma for_sides_good:
  assumes "list_all (good_side (input_header inp)) (inp # rest)" "can_open dev"
  shows "\<exists>st'. for_sides dev out 0 (inp # rest) init_state = (None, st')
     \<and> out_bytes (aResFile st') =
         Some (magic @ bytes_of_DDSFileHeader (result_header (input_header inp))
                 @ concat (map (\<lambda>inp. payload (input_bytes inp)) (inp # rest)))
     \<and> \<not> failed (aResFile st') \<and> anInHeaders st' 0 = Some (input_header inp)
     \<and> cerr st' = sides_log 0 (inp # rest) \<and> aBufferStorage st' \<noteq> []
     \<and> \<not> read_beyond_aSize st'"
proof -
  let ?st1 = "(fill_buffer (input_bytes inp) init_state)\<lparr>aResFile := (aResFile init_state)\<lparr>out_bytes :=
                   Some (magic @ bytes_of_DDSFileHeader (result_header (input_header inp))
                           @ payload (input_bytes inp))\<rparr>,
               anInHeaders := (anInHeaders init_state)(0 \<mapsto> input_header inp),
               cerr := cerr init_state @ side_log 0 (input_header inp)\<rparr>"
  have step: "process_side dev out 0 inp init_state = (None, ?st1)"
    using assms by (intro process_side_good_first [of "input_header inp"]) (simp_all add: init_state_def)
  have "list_all (good_side (input_header inp)) rest" "0 < Suc 0"
      "anInHeaders ?st1 0 = Some (input_header inp)"
      "out_bytes (aResFile ?st1) =
         Some (magic @ bytes_of_DDSFileHeader (result_header (input_header inp))
                 @ payload (input_bytes inp))"
      "\<not> failed (aResFile ?st1)" "aBufferStorage ?st1 \<noteq> []"
    using assms good_side_bytes(3) [of "input_header inp" inp]
    by (auto simp: init_state_def)
  from for_sides_good_next [OF this, of dev out] step show ?thesis
    by (auto simp: init_state_def)
qed

lemma for_sides_append:
  "for_sides dev out k (pre @ post) st =
     (case for_sides dev out k pre st of
        (Some f, st') \<Rightarrow> (Some f, st')
      | (None, st') \<Rightarrow> for_sides dev out (k + length pre) post st')"
  by (induction pre arbitrary: k st) (auto split: prod.splits option.splits)

subsection \<open>The run up to a side\<close>

lemma take_good_before:
  assumes "good_before anInput i" "0 < i" "i \<le> length anInput"
  shows "\<exists>rest. take i anInput = hd anInput # rest
     \<and> list_all (good_side (input_header (hd anInput))) (hd anInput # rest)"
proof -
  from assms(2,3) have "anInput \<noteq> []" by auto
  then obtain x xs where x: "anInput = x # xs" by (cases anInput) auto
  from assms(2) obtain j where j: "i = Suc j" by (cases i) auto
  show ?thesis
    using assms(1) by (simp add: x j good_before_def)
qed

lemma state_before_good:
  assumes "good_before anInput i" "0 < i" "i \<le> length anInput" "can_open dev"
  shows "for_sides dev out 0 (take i anInput) init_state = (None, state_before dev out anInput i)"
    "out_bytes (aResFile (state_before dev out anInput i)) = Some (assembled (take i anInput))"
    "\<not> failed (aResFile (state_before dev out anInput i))"
    "anInHeaders (state_before dev out anInput i) 0 = Some (input_header (hd anInput))"
    "cerr (state_before dev out anInput i) = sides_log 0 (take i anInput)"
    "aBufferStorage (state_before dev out anInput i) \<noteq> []"
    "\<not> read_beyond_aSize (state_before dev out anInput i)"
proof -
  from take_good_before [OF assms(1-3)] obtain rest where
    t: "take i anInput = hd anInput # rest"
    and g: "list_all (good_side (input_header (hd anInput))) (hd anInput # rest)"
    by blast
  from for_sides_good [OF g assms(4), of out] obtain st' where
    r: "for_sides dev out 0 (hd anInput # rest) init_state = (None, st')"
    and o: "out_bytes (aResFile st') =
         Some (magic @ bytes_of_DDSFileHeader (result_header (input_header (hd anInput)))
                 @ concat (map (\<lambda>inp. payload (input_bytes inp)) (hd anInput # rest)))"
    and f: "\<not> failed (aResFile st')" and h: "anInHeaders st' 0 = Some (input_header (hd anInput))"
    and c: "cerr st' = sides_log 0 (hd anInput # rest)"
    and b: "aBufferStorage st' \<noteq> []" and n: "\<not> read_beyond_aSize st'"
    by blast
  have s: "state_before dev out anInput i = st'"
    unfolding state_before_def t r by simp
  show "for_sides dev out 0 (take i anInput) init_state = (None, state_before dev out anInput i)"
    unfolding s t r ..
  show "out_bytes (aResFile (state_before dev out anInput i)) = Some (assembled (take i anInput))"
    by (simp add: s o assembled_def t)
  show "\<not> failed (aResFile (state_before dev out anInput i))"
    by (simp add: s f)
  show "anInHeaders (state_before dev out anInput i) 0 = Some (input_header (hd anInput))"
    by (simp add: s h)
  show "cerr (state_before dev out anInput i) = sides_log 0 (take i anInput)"
    by (simp add: s c t)
  show "aBufferStorage (state_before dev out anInput i) \<noteq> []"
    by (simp add: s b)
  show "\<not> read_beyond_aSize (state_before dev out anInput i)"
    by (simp add: s n)
qed

lemma state_before_0: "state_before dev out anInput 0 = init_state"
  by (simp add: state_before_def)

lemma reaches_side:
  assumes "good_before anInput i" "i \<le> length anInput" "can_open dev \<or> i = 0"
  shows "for_sides dev out 0 (take i anInput) init_state = (None, state_before dev out anInput i)"
proof (cases "i = 0")
  case True
  then show ?thesis by (simp add: state_before_def)
next
  case False
  with assms show ?thesis by (intro state_before_good) simp_all
qed

lemma ddscubemap_stops:
  assumes "length anInput = 6" "anOutput \<noteq> []" "i < 6"
    "for_sides dev anOutput 0 (take i anInput) init_state = (None, st)"
    "process_side dev anOutput i (anInput ! i) st = (Some f, st')"
  shows "ddscubemap dev anInput anOutput = (Some f, st')"
proof -
  have "anInput = take i anInput @ anInput ! i # drop (Suc i) anInput"
    using assms(1,3) by (simp add: id_take_nth_drop)
  then have "for_sides dev anOutput 0 anInput init_state =
      for_sides dev anOutput 0 (take i anInput @ anInput ! i # drop (Suc i) anInput) init_state"
    by simp
  also have "\<dots> = (Some f, st')"
    using assms(1,3,4,5) by (simp add: for_sides_append)
  finally show ?thesis
    using assms(1,2) by (simp add: ddscubemap_def)
qed

lemma ddscubemap_good:
  assumes "length anInput = 6" "anOutput \<noteq> []" "good_sides anInput" "can_open dev"
  shows "fst (ddscubemap dev anInput anOutput) =
           (if can_close dev then None else Some (Return1 (UnableToWrite anOutput)))"
    "out_bytes (aResFile (snd (ddscubemap dev anInput anOutput))) = Some (assembled anInput)"
    "set (sides_log 0 anInput) \<subseteq> set (cerr (snd (ddscubemap dev anInput anOutput)))"
proof -
  have g: "good_before anInput 6"
    using assms(1,3) by (simp add: good_before_def good_sides_def)
  note s = state_before_good [OF g _ _ assms(4), of anOutput]
  have t: "take 6 anInput = anInput"
    using assms(1) by simp
  let ?st = "state_before dev anOutput anInput 6"
  have r: "for_sides dev anOutput 0 anInput init_state = (None, ?st)"
    using s(1) assms(1) by (simp add: t)
  have o: "out_bytes (aResFile ?st) = Some (assembled anInput)"
    and f: "\<not> failed (aResFile ?st)" and c: "cerr ?st = sides_log 0 anInput"
    using s(2,3,5) assms(1) by (simp_all add: t)
  show "fst (ddscubemap dev anInput anOutput) =
           (if can_close dev then None else Some (Return1 (UnableToWrite anOutput)))"
    using assms(1,2) r o f
    by (simp add: ddscubemap_def ofstream_close_def fail_with_def Let_def)
  show "out_bytes (aResFile (snd (ddscubemap dev anInput anOutput))) = Some (assembled anInput)"
    using assms(1,2) r o f
    by (simp add: ddscubemap_def ofstream_close_def fail_with_def Let_def)
  show "set (sides_log 0 anInput) \<subseteq> set (cerr (snd (ddscubemap dev anInput anOutput)))"
    using assms(1,2) r c
    by (auto simp: ddscubemap_def ofstream_close_def fail_with_def Let_def)
qed

subsection \<open>Sides that are rejected\<close>

lemma process_side_unreadable:
  "contents inp = None \<Longrightarrow>
   process_side dev out k inp st = fail_with (UnableToRead (path inp)) st"
  by (simp add: process_side_def)

lemma process_side_no_storage:
  "contents inp = Some [] \<Longrightarrow> aBufferStorage st = [] \<Longrightarrow>
   process_side dev out k inp st =
     (Some OutOfBoundsRead, (fill_buffer [] st)\<lparr>read_beyond_aSize := True\<rparr>)"
  by (simp add: process_side_def read_bytes_def Let_def)

lemma process_side_short:
  "contents inp = Some buf \<Longrightarrow> length buf < 4 \<Longrightarrow> buf \<noteq> [] \<or> aBufferStorage st \<noteq> [] \<Longrightarrow>
   process_side dev out k inp st =
     fail_with (NotDDS (path inp)) ((fill_buffer buf st)\<lparr>read_beyond_aSize := True\<rparr>)"
  by (auto simp: process_side_def read_bytes_def Let_def)

lemma process_side_not_dds:
  "contents inp = Some buf \<Longrightarrow> 4 \<le> length buf \<Longrightarrow> \<not> is_dds buf \<Longrightarrow>
   process_side dev out k inp st = fail_with (NotDDS (path inp)) (fill_buffer buf st)"
  by (auto simp: process_side_def read_bytes_def is_dds_def Let_def)

lemma check_side_not_valid:
  "\<not> valid_header h \<Longrightarrow>
   check_side dev out k inp buf h st =
     fail_with (NotValidDDS (path inp)) (st\<lparr>anInHeaders := (anInHeaders st)(k \<mapsto> h)\<rparr>)"
  by (auto simp: check_side_def valid_header_def)

lemma check_side_not_square:
  "valid_header h \<Longrightarrow> Width h \<noteq> Height h \<Longrightarrow>
   check_side dev out k inp buf h st =
     fail_with (NotSuitableForCubemap (path inp))
       (st\<lparr>anInHeaders := (anInHeaders st)(k \<mapsto> h), cerr := cerr st @ side_log k h\<rparr>)"
  by (simp add: check_side_def valid_header_def side_log_def Let_def)

lemma check_side_inconsistent:
  "valid_header h \<Longrightarrow> Width h = Height h \<Longrightarrow> 0 < k \<Longrightarrow> anInHeaders st 0 = Some h0 \<Longrightarrow>
   Width h \<noteq> Width h0 \<or> Height h \<noteq> Height h0
     \<or> FourCC (PixelFormatDef h) \<noteq> FourCC (PixelFormatDef h0) \<Longrightarrow>
   check_side dev out k inp buf h st =
     fail_with (InconsistentDefinition (path inp))
       (st\<lparr>anInHeaders := (anInHeaders st)(k \<mapsto> h), cerr := cerr st @ side_log k h\<rparr>)"
  by (auto simp: check_side_def emit_side_def valid_header_def side_log_def Let_def)

lemma write_payload_fault:
  "128 \<le> length buf \<Longrightarrow> fst (write_payload buf st) = None"
  by (simp add: write_payload_in_bounds)

lemma emit_side_in_bounds:
  "128 \<le> length buf \<Longrightarrow> fst (emit_side dev out k inp buf h st) \<noteq> Some OutOfBoundsRead"
  by (simp add: emit_side_def Let_def fail_with_def write_payload_fault split: option.splits)

lemma check_side_in_bounds:
  "128 \<le> length buf \<Longrightarrow> fst (check_side dev out k inp buf h st) \<noteq> Some OutOfBoundsRead"
  by (simp add: check_side_def Let_def fail_with_def emit_side_in_bounds)

lemma check_side_beyond:
  "read_beyond_aSize (snd (check_side dev out k inp buf h st)) = read_beyond_aSize st"
  by (simp add: check_side_def emit_side_def write_payload_def fail_with_def Let_def
      split: option.splits)

lemma process_side_beyond_iff:
  "read_beyond_aSize (snd (process_side dev out k inp st)) =
     (read_beyond_aSize st \<or> (case contents inp of None \<Rightarrow> False | Some buf \<Rightarrow> length buf < 4))"
proof (cases "contents inp")
  case None
  then show ?thesis by (simp add: process_side_unreadable fail_with_def)
next
  case (Some buf)
  show ?thesis
  proof (cases "length buf < 4")
    case True
    show ?thesis
    proof (cases "buf = [] \<and> aBufferStorage st = []")
      case True
      with Some show ?thesis by (simp add: process_side_no_storage)
    next
      case False
      with Some True show ?thesis by (simp add: process_side_short fail_with_def)
    qed
  next
    case False
    show ?thesis
    proof (cases "is_dds buf")
      case True
      with Some False show ?thesis
        by (simp add: process_side_decoded check_side_beyond)
    next
      case nd: False
      with Some False show ?thesis
        by (simp add: process_side_not_dds fail_with_def)
    qed
  qed
qed

lemma process_side_out_of_bounds_iff:
  "fst (process_side dev out k inp st) = Some OutOfBoundsRead \<longleftrightarrow>
     (case contents inp of None \<Rightarrow> False | Some buf \<Rightarrow> buf = [] \<and> aBufferStorage st = [])"
proof (cases "contents inp")
  case None
  then show ?thesis by (simp add: process_side_unreadable fail_with_def)
next
  case (Some buf)
  show ?thesis
  proof (cases "length buf < 4")
    case True
    show ?thesis
    proof (cases "buf = [] \<and> aBufferStorage st = []")
      case True
      with Some show ?thesis by (simp add: process_side_no_storage)
    next
      case False
      with Some True show ?thesis by (auto simp: process_side_short fail_with_def)
    qed
  next
    case False
    show ?thesis
    proof (cases "is_dds buf")
      case True
      then have "128 \<le> length buf" by (simp add: is_dds_def)
      with Some True False show ?thesis
        by (auto simp: process_side_decoded check_side_in_bounds)
    next
      case nd: False
      with Some False show ?thesis
        by (auto simp: process_side_not_dds fail_with_def)
    qed
  qed
qed

lemma emit_side_mips:
  "fst (emit_side dev out k inp buf (h\<lparr>MipMapCount := m\<rparr>) st) =
   fst (emit_side dev out k inp buf h st)"
  by (simp add: emit_side_def Let_def fail_with_def write_payload_def split: option.splits)

lemma rejected_at:
  assumes "length anInput = 6" "anOutput \<noteq> []" "i < 6" "good_before anInput i"
    "can_open dev \<or> i = 0"
    "process_side dev anOutput i (anInput ! i) (state_before dev anOutput anInput i) = (Some f, st')"
  shows "ddscubemap dev anInput anOutput = (Some f, st')"
proof -
  have "for_sides dev anOutput 0 (take i anInput) init_state =
      (None, state_before dev anOutput anInput i)"
    using assms(1,3,4,5) by (intro reaches_side) simp_all
  then show ?thesis
    using assms(1,2,3,6) by (intro ddscubemap_stops [of _ _ i]) simp_all
qed

subsection \<open>The example inputs\<close>

lemma dxt1_header_simps:
  "length (Reserved1 (dxt1_header s m)) = 11"
  "valid_header (dxt1_header s m) = (s \<noteq> 0)"
  "Width (dxt1_header s m) = s" "Height (dxt1_header s m) = s"
  "MipMapCount (dxt1_header s m) = m" "Caps2 (dxt1_header s m) = 0"
  "FourCC (PixelFormatDef (dxt1_header s m)) = 0x31545844"
  by (simp_all add: dxt1_header_def valid_header_def)

lemma dds_bytes_nil:
  assumes "length (Reserved1 h) = 11"
  shows "payload (magic @ bytes_of_DDSFileHeader h) = []"
    "file_header (magic @ bytes_of_DDSFileHeader h) = h"
    "is_dds (magic @ bytes_of_DDSFileHeader h)"
  using payload_dds_bytes [OF assms, of "[]"] file_header_dds_bytes [OF assms, of "[]"]
    is_dds_dds_bytes [OF assms, of "[]"]
  by simp_all

lemma dds_file_simps:
  assumes "length (Reserved1 h) = 11"
  shows "path (dds_file p h bs) = p"
    "contents (dds_file p h bs) = Some (magic @ bytes_of_DDSFileHeader h @ bs)"
    "input_bytes (dds_file p h bs) = magic @ bytes_of_DDSFileHeader h @ bs"
    "input_header (dds_file p h bs) = h"
    "payload (input_bytes (dds_file p h bs)) = bs"
    "is_dds (magic @ bytes_of_DDSFileHeader h @ bs)"
    "file_header (magic @ bytes_of_DDSFileHeader h @ bs) = h"
  using assms
  by (simp_all add: dds_file_def input_bytes_def input_header_def file_header_dds_bytes
      payload_dds_bytes is_dds_dds_bytes)

lemma good_side_dds_file:
  assumes "length (Reserved1 h) = 11" "valid_header h" "Width h = Height h"
    "Width h = Width h0" "Height h = Height h0"
    "FourCC (PixelFormatDef h) = FourCC (PixelFormatDef h0)"
  shows "good_side h0 (dds_file p h bs)"
  using assms by (simp add: good_side_def dds_file_simps)

lemma six_sides_simps:
  "length (six_sides h) = 6" "hd (six_sides h) = dds_file ''px.dds'' h [1, 1]"
  by (simp_all add: six_sides_def)

lemma good_sides_six_sides:
  assumes "length (Reserved1 h) = 11" "valid_header h" "Width h = Height h"
  shows "good_sides (six_sides h)"
  using assms
  by (simp add: good_sides_def six_sides_simps dds_file_simps)
     (simp add: six_sides_def good_side_dds_file)

lemma assembled_six_sides:
  assumes "length (Reserved1 h) = 11"
  shows "assembled (six_sides h) =
     magic @ bytes_of_DDSFileHeader (result_header h) @ [1, 1, 2, 4, 4, 4, 5, 6]"
  using assms
  by (simp add: assembled_def six_sides_simps dds_file_simps)
     (simp add: six_sides_def dds_file_simps payload_dds_bytes dds_bytes_nil)

subsection \<open>What a run that continues has written\<close>

lemma IscompleteCubemap_result_header: "IscompleteCubemap (result_header h)"
proof -
  have "bit (Caps2 h OR 0xFE00) 9"
    by (simp add: bit_or_iff bit_FE00)
  then show ?thesis
    by (simp add: IscompleteCubemap_def result_header_def DDSCompleteCubemap_def and_FE00_iff)
qed

lemma length_Reserved1_result_header:
  "length (Reserved1 (result_header h)) = length (Reserved1 h)"
  by (simp add: result_header_def)

lemma emit_side_continue_first:
  assumes "emit_side dev out 0 inp buf h st = (None, st')"
  shows "\<exists>rest. out_bytes (aResFile st') = Some (magic @ bytes_of_DDSFileHeader (result_header h) @ rest)"
  using assms
  by (auto simp: emit_side_def write_payload_def fail_with_def Let_def ofstream_open_def
      ofstream_write_def result_header_def split: option.splits if_splits)

lemma check_side_continue:
  assumes "check_side dev out k inp buf h st = (None, st')"
  shows "\<exists>st1. emit_side dev out k inp buf h st1 = (None, st')
     \<and> aResFile st1 = aResFile st \<and> (0 < k \<longrightarrow> anInHeaders st1 0 = anInHeaders st 0)"
proof -
  let ?st1 = "st\<lparr>anInHeaders := (anInHeaders st)(k \<mapsto> h)\<rparr>"
  let ?st2 = "?st1\<lparr>cerr := cerr ?st1 @
                        [SideInfo k (Width h) (Height h) (FourCC (PixelFormatDef h)) (MipMapCount h)]\<rparr>"
  let ?st3 = "if expectedMipCount (Width h) (Height h) \<noteq> MipMapCount h
              then ?st2\<lparr>cerr := cerr ?st2 @
                     [MipWarning (MipMapCount h) (expectedMipCount (Width h) (Height h))]\<rparr>
              else ?st2"
  from assms have "emit_side dev out k inp buf h ?st3 = (None, st')"
    by (simp add: check_side_def Let_def fail_with_def split: if_splits)
  moreover have "aResFile ?st3 = aResFile st" "0 < k \<longrightarrow> anInHeaders ?st3 0 = anInHeaders st 0"
    by simp_all
  ultimately show ?thesis
    by blast
qed

lemma process_side_continue:
  assumes "process_side dev out k inp st = (None, st')"
  shows "\<exists>buf. contents inp = Some buf \<and> is_dds buf
     \<and> check_side dev out k inp buf (file_header buf) (fill_buffer buf st) = (None, st')"
  using assms
  by (auto simp: process_side_def read_bytes_def fail_with_def is_dds_def file_header_def
      Let_def split: option.splits if_splits)

lemma process_side_continue_first:
  assumes "process_side dev out 0 inp st = (None, st')"
  shows "\<exists>h rest. length (Reserved1 h) = 11 \<and> IscompleteCubemap h
     \<and> out_bytes (aResFile st') = Some (magic @ bytes_of_DDSFileHeader h @ rest)"
proof -
  from process_side_continue [OF assms] obtain buf where
    "check_side dev out 0 inp buf (file_header buf) (fill_buffer buf st) = (None, st')"
    by blast
  from check_side_continue [OF this] obtain st1 where
    "emit_side dev out 0 inp buf (file_header buf) st1 = (None, st')"
    by blast
  from emit_side_continue_first [OF this] obtain rest where
    "out_bytes (aResFile st') =
       Some (magic @ bytes_of_DDSFileHeader (result_header (file_header buf)) @ rest)"
    by blast
  moreover have "length (Reserved1 (result_header (file_header buf))) = 11"
    by (simp add: length_Reserved1_result_header file_header_def length_Reserved1_of_bytes)
  ultimately show ?thesis
    using IscompleteCubemap_result_header by blast
qed

lemma emit_side_continue_next:
  assumes "emit_side dev out k inp buf h st = (None, st')" "0 < k"
    "out_bytes (aResFile st) = Some w"
  shows "\<exists>rest. out_bytes (aResFile st') = Some (w @ rest)"
  using assms
  by (auto simp: emit_side_def write_payload_def fail_with_def Let_def
      ofstream_write_def split: option.splits if_splits)

lemma process_side_continue_next:
  assumes "process_side dev out k inp st = (None, st')" "0 < k"
    "out_bytes (aResFile st) = Some w"
  shows "\<exists>rest. out_bytes (aResFile st') = Some (w @ rest)"
proof -
  from process_side_continue [OF assms(1)] obtain buf where
    "check_side dev out k inp buf (file_header buf) (fill_buffer buf st) = (None, st')"
    by blast
  from check_side_continue [OF this] obtain st1 where
    "emit_side dev out k inp buf (file_header buf) st1 = (None, st')" "aResFile st1 = aResFile st"
    by auto
  with assms(2,3) show ?thesis
    by (intro emit_side_continue_next [of dev out k inp buf "file_header buf" st1]) simp_all
qed

lemma for_sides_continue_next:
  assumes "for_sides dev out k xs st = (None, st')" "0 < k" "out_bytes (aResFile st) = Some w"
  shows "\<exists>rest. out_bytes (aResFile st') = Some (w @ rest)"
  using assms
proof (induction xs arbitrary: k st w)
  case Nil
  then show ?case by simp
next
  case (Cons inp xs)
  from Cons.prems(1) obtain st1 where
    s1: "process_side dev out k inp st = (None, st1)"
    and s2: "for_sides dev out (Suc k) xs st1 = (None, st')"
    by (auto split: prod.splits option.splits)
  from process_side_continue_next [OF s1 Cons.prems(2,3)] obtain r1 where
    "out_bytes (aResFile st1) = Some (w @ r1)"
    by blast
  from Cons.IH [OF s2 _ this] obtain r2 where "out_bytes (aResFile st') = Some ((w @ r1) @ r2)"
    by auto
  then show ?case by simp
qed

lemma ddscubemap_continue:
  assumes "fst (ddscubemap dev anInput anOutput) = None"
  shows "\<exists>h rest. length (Reserved1 h) = 11 \<and> IscompleteCubemap h
     \<and> out_bytes (aResFile (snd (ddscubemap dev anInput anOutput))) =
         Some (magic @ bytes_of_DDSFileHeader h @ rest)"
proof -
  from assms have len: "length anInput = 6" and out: "anOutput \<noteq> []"
    by (auto simp: ddscubemap_def fail_with_def split: if_splits)
  then obtain inp xs where x: "anInput = inp # xs"
    by (cases anInput) auto
  from assms len out obtain st where
    r: "for_sides dev anOutput 0 anInput init_state = (None, st)"
    and o: "out_bytes (aResFile (snd (ddscubemap dev anInput anOutput))) = out_bytes (aResFile st)"
    by (auto simp: ddscubemap_def fail_with_def Let_def ofstream_close_def
        split: if_splits prod.splits option.splits)
  from r x obtain st1 where
    s1: "process_side dev anOutput 0 inp init_state = (None, st1)"
    and s2: "for_sides dev anOutput (Suc 0) xs st1 = (None, st)"
    by (auto split: prod.splits option.splits)
  from process_side_continue_first [OF s1] obtain h r1 where
    h: "length (Reserved1 h) = 11" "IscompleteCubemap h"
    and w: "out_bytes (aResFile st1) = Some (magic @ bytes_of_DDSFileHeader h @ r1)"
    by blast
  from for_sides_continue_next [OF s2 _ w] obtain r2 where
    "out_bytes (aResFile st) = Some ((magic @ bytes_of_DDSFileHeader h @ r1) @ r2)"
    by auto
  with o have "out_bytes (aResFile (snd (ddscubemap dev anInput anOutput))) =
      Some (magic @ bytes_of_DDSFileHeader h @ (r1 @ r2))"
    by simp
  with h show ?thesis
    by blast
qed

lemma length_assembled:
  assumes "length (Reserved1 (input_header (hd anInput))) = 11"
  shows "length (assembled anInput) =
     128 + sum_list (map (\<lambda>inp. length (payload (input_bytes inp))) anInput)"
proof -
  have "length (concat (map (\<lambda>inp. payload (input_bytes inp)) anInput)) =
      sum_list (map (\<lambda>inp. length (payload (input_bytes inp))) anInput)"
    by (simp add: length_concat comp_def)
  then show ?thesis
    using assms
    by (simp add: assembled_def length_bytes_of_DDSFileHeader length_Reserved1_result_header
        magic_def)
qed

lemma length_Reserved1_input_header: "length (Reserved1 (input_header inp)) = 11"
  by (simp add: input_header_def file_header_def length_Reserved1_of_bytes)

subsection \<open>The run at the first side that is rejected\<close>

lemma state_before_facts:
  assumes "good_before anInput i" "i \<le> length anInput" "can_open dev \<or> i = 0"
  shows "cerr (state_before dev out anInput i) = sides_log 0 (take i anInput)"
    "i = 0 \<Longrightarrow> aResFile (state_before dev out anInput i) = \<lparr>out_bytes = None, failed = False\<rparr>"
    "0 < i \<Longrightarrow> out_bytes (aResFile (state_before dev out anInput i)) = Some (assembled (take i anInput))"
    "0 < i \<Longrightarrow> anInHeaders (state_before dev out anInput i) 0 = Some (input_header (hd anInput))"
    "0 < i \<Longrightarrow> aBufferStorage (state_before dev out anInput i) \<noteq> []"
    "i = 0 \<Longrightarrow> aBufferStorage (state_before dev out anInput i) = []"
    "\<not> read_beyond_aSize (state_before dev out anInput i)"
proof -
  show "\<not> read_beyond_aSize (state_before dev out anInput i)"
  proof (cases "i = 0")
    case True
    then show ?thesis by (simp add: state_before_0 init_state_def)
  next
    case False
    with assms show ?thesis by (intro state_before_good) simp_all
  qed
  show "aBufferStorage (state_before dev out anInput i) \<noteq> []" if "0 < i"
    using that assms by (intro state_before_good) simp_all
  show "aBufferStorage (state_before dev out anInput i) = []" if "i = 0"
    using that by (simp add: state_before_0 init_state_def)
  show "cerr (state_before dev out anInput i) = sides_log 0 (take i anInput)"
  proof (cases "i = 0")
    case True
    then show ?thesis by (simp add: state_before_0 init_state_def)
  next
    case False
    with assms show ?thesis by (intro state_before_good) simp_all
  qed
  show "aResFile (state_before dev out anInput i) = \<lparr>out_bytes = None, failed = False\<rparr>" if "i = 0"
    using that by (simp add: state_before_0 init_state_def)
  show "out_bytes (aResFile (state_before dev out anInput i)) = Some (assembled (take i anInput))"
    if "0 < i"
    using that assms by (intro state_before_good) simp_all
  show "anInHeaders (state_before dev out anInput i) 0 = Some (input_header (hd anInput))"
    if "0 < i"
    using that assms by (intro state_before_good) simp_all
qed

lemma ddscubemap_empty_first:
  assumes "length anInput = 6" "anOutput \<noteq> []" "contents (anInput ! 0) = Some []"
  shows "ddscubemap dev anInput anOutput =
     (Some OutOfBoundsRead, (fill_buffer [] init_state)\<lparr>read_beyond_aSize := True\<rparr>)"
  using assms
  by (intro rejected_at [of _ _ 0])
     (simp_all add: process_side_no_storage state_before_0 good_before_def init_state_def)

lemma ddscubemap_short:
  assumes "length anInput = 6" "anOutput \<noteq> []" "i < 6" "good_before anInput i"
    "can_open dev \<or> i = 0" "contents (anInput ! i) = Some buf" "length buf < 4"
    "buf \<noteq> [] \<or> 0 < i"
  shows "ddscubemap dev anInput anOutput =
     fail_with (NotDDS (path (anInput ! i)))
       ((fill_buffer buf (state_before dev anOutput anInput i))\<lparr>read_beyond_aSize := True\<rparr>)"
proof -
  have "buf \<noteq> [] \<or> aBufferStorage (state_before dev anOutput anInput i) \<noteq> []"
    using assms(8) state_before_facts(5) [OF assms(4) _ assms(5), of anOutput] assms(1,3)
    by auto
  then have "process_side dev anOutput i (anInput ! i) (state_before dev anOutput anInput i) =
      fail_with (NotDDS (path (anInput ! i)))
       ((fill_buffer buf (state_before dev anOutput anInput i))\<lparr>read_beyond_aSize := True\<rparr>)"
    using assms(6,7) by (intro process_side_short) simp_all
  then show ?thesis
    unfolding fail_with_def using assms(1-5)
    by (intro rejected_at [of _ _ i]) simp_all
qed

lemma ddscubemap_not_dds:
  assumes "length anInput = 6" "anOutput \<noteq> []" "i < 6" "good_before anInput i"
    "can_open dev \<or> i = 0" "contents (anInput ! i) = Some buf" "4 \<le> length buf" "\<not> is_dds buf"
  shows "ddscubemap dev anInput anOutput =
     fail_with (NotDDS (path (anInput ! i)))
       (fill_buffer buf (state_before dev anOutput anInput i))"
  unfolding fail_with_def using assms
  by (intro rejected_at [of _ _ i]) (simp_all add: process_side_not_dds fail_with_def)

lemma ddscubemap_not_valid:
  assumes "length anInput = 6" "anOutput \<noteq> []" "i < 6" "good_before anInput i"
    "can_open dev \<or> i = 0" "contents (anInput ! i) = Some buf" "is_dds buf"
    "\<not> valid_header (file_header buf)"
  shows "ddscubemap dev anInput anOutput =
     fail_with (NotValidDDS (path (anInput ! i)))
       ((fill_buffer buf (state_before dev anOutput anInput i))
          \<lparr>anInHeaders := (anInHeaders (state_before dev anOutput anInput i))(i \<mapsto> file_header buf)\<rparr>)"
  unfolding fail_with_def using assms
  by (intro rejected_at [of _ _ i])
     (simp_all add: process_side_decoded check_side_not_valid fail_with_def)

lemma ddscubemap_not_square:
  assumes "length anInput = 6" "anOutput \<noteq> []" "i < 6" "good_before anInput i"
    "can_open dev \<or> i = 0" "contents (anInput ! i) = Some buf" "is_dds buf"
    "valid_header (file_header buf)" "Width (file_header buf) \<noteq> Height (file_header buf)"
  shows "ddscubemap dev anInput anOutput =
     fail_with (NotSuitableForCubemap (path (anInput ! i)))
       ((fill_buffer buf (state_before dev anOutput anInput i))
          \<lparr>anInHeaders := (anInHeaders (state_before dev anOutput anInput i))(i \<mapsto> file_header buf),
           cerr := cerr (state_before dev anOutput anInput i) @ side_log i (file_header buf)\<rparr>)"
  unfolding fail_with_def using assms
  by (intro rejected_at [of _ _ i])
     (simp_all add: process_side_decoded check_side_not_square fail_with_def)

lemma ddscubemap_inconsistent:
  assumes "length anInput = 6" "anOutput \<noteq> []" "0 < i" "i < 6" "good_before anInput i"
    "can_open dev" "contents (anInput ! i) = Some buf" "is_dds buf"
    "valid_header (file_header buf)" "Width (file_header buf) = Height (file_header buf)"
    "Width (file_header buf) \<noteq> Width (input_header (hd anInput))
     \<or> Height (file_header buf) \<noteq> Height (input_header (hd anInput))
     \<or> FourCC (PixelFormatDef (file_header buf)) \<noteq> FourCC (PixelFormatDef (input_header (hd anInput)))"
  shows "ddscubemap dev anInput anOutput =
     fail_with (InconsistentDefinition (path (anInput ! i)))
       ((fill_buffer buf (state_before dev anOutput anInput i))
          \<lparr>anInHeaders := (anInHeaders (state_before dev anOutput anInput i))(i \<mapsto> file_header buf),
           cerr := cerr (state_before dev anOutput anInput i) @ side_log i (file_header buf)\<rparr>)"
proof -
  have h0: "anInHeaders (state_before dev anOutput anInput i) 0 = Some (input_header (hd anInput))"
    using assms(1,3,4,5,6) by (intro state_before_facts) simp_all
  have "process_side dev anOutput i (anInput ! i) (state_before dev anOutput anInput i) =
      fail_with (InconsistentDefinition (path (anInput ! i)))
       ((fill_buffer buf (state_before dev anOutput anInput i))
          \<lparr>anInHeaders := (anInHeaders (state_before dev anOutput anInput i))(i \<mapsto> file_header buf),
           cerr := cerr (state_before dev anOutput anInput i) @ side_log i (file_header buf)\<rparr>)"
    using assms(3,7-11) h0
    by (simp add: process_side_decoded check_side_inconsistent [where ?h0.0 = "input_header (hd anInput)"])
  then show ?thesis
    unfolding fail_with_def using assms(1,2,4,5,6)
    by (intro rejected_at [of _ _ i]) simp_all
qed

lemma short_or_untagged_side_rejected:
  assumes "length anInput = 6" "anOutput \<noteq> []" "i < 6" "good_before anInput i"
    "can_open dev \<or> i = 0" "contents (anInput ! i) = Some buf" "buf \<noteq> [] \<or> 0 < i"
    "take 4 buf \<noteq> magic \<or> length buf < 128"
  shows "fst (ddscubemap dev anInput anOutput) = Some (Return1 (NotDDS (path (anInput ! i))))
     \<and> aResFile (snd (ddscubemap dev anInput anOutput)) =
           aResFile (state_before dev anOutput anInput i)
     \<and> (i = 0 \<longrightarrow> out_bytes (aResFile (snd (ddscubemap dev anInput anOutput))) = None)
     \<and> (0 < i \<longrightarrow> out_bytes (aResFile (snd (ddscubemap dev anInput anOutput))) =
           Some (assembled (take i anInput)))"
proof (cases "length buf < 4")
  case True
  note r = ddscubemap_short [OF assms(1-6) True assms(7)]
  note s = state_before_facts [OF assms(4) _ assms(5), of anOutput]
  from r s assms(1,3) show ?thesis
    by (simp add: fail_with_def)
next
  case False
  then have l: "4 \<le> length buf"
    by simp
  have "\<not> is_dds buf"
    using assms(8) by (auto simp: is_dds_def)
  note r = ddscubemap_not_dds [OF assms(1-6) l this]
  note s = state_before_facts [OF assms(4) _ assms(5), of anOutput]
  from r s assms(1,3) show ?thesis
    by (simp add: fail_with_def)
qed

lemma good_before_update:
  assumes "good_sides xs"
  shows "good_before (xs[i := x]) i"
proof (cases i)
  case 0
  then show ?thesis by (simp add: good_before_def)
next
  case (Suc j)
  have "hd (xs[Suc j := x]) = hd xs"
    by (cases xs) simp_all
  moreover have "list_all (good_side (input_header (hd xs))) (take (Suc j) xs)"
    using assms unfolding good_sides_def list_all_iff by (auto dest: in_set_takeD)
  ultimately show ?thesis
    by (simp add: good_before_def Suc)
qed




subsection \<open>The first header is assigned before it is read\<close>

lemma process_side_first_header:
  "process_side dev out 0 inp st = (r, st') \<Longrightarrow>
   r \<noteq> Some UninitialisedRead \<and> (r = None \<longrightarrow> anInHeaders st' 0 \<noteq> None)"
  by (auto simp: process_side_def check_side_def emit_side_def write_payload_def fail_with_def
      Let_def split: option.splits if_splits)

lemma process_side_next_header:
  "process_side dev out k inp st = (r, st') \<Longrightarrow> anInHeaders st 0 \<noteq> None \<Longrightarrow>
   r \<noteq> Some UninitialisedRead \<and> anInHeaders st' 0 \<noteq> None"
  by (auto simp: process_side_def check_side_def emit_side_def write_payload_def fail_with_def
      Let_def split: option.splits if_splits)

lemma for_sides_initialised:
  "anInHeaders st 0 \<noteq> None \<Longrightarrow> fst (for_sides dev out k xs st) \<noteq> Some UninitialisedRead"
proof (induction xs arbitrary: k st)
  case Nil
  then show ?case by simp
next
  case (Cons inp xs)
  obtain r st' where p: "process_side dev out k inp st = (r, st')"
    by (cases "process_side dev out k inp st")
  from process_side_next_header [OF p Cons.prems] Cons.IH [of st' "Suc k"] p show ?case
    by (cases r) auto
qed

lemma ddscubemap_initialised:
  "fst (ddscubemap dev anInput anOutput) \<noteq> Some UninitialisedRead"
proof (cases "length anInput \<noteq> 6 \<or> anOutput = []")
  case True
  then show ?thesis by (auto simp: ddscubemap_def fail_with_def)
next
  case False
  then obtain inp xs where x: "anInput = inp # xs"
    by (cases anInput) auto
  obtain r st' where p: "process_side dev anOutput 0 inp init_state = (r, st')"
    by (cases "process_side dev anOutput 0 inp init_state")
  have "fst (for_sides dev anOutput 0 anInput init_state) \<noteq> Some UninitialisedRead"
    using process_side_first_header [OF p] for_sides_initialised [of st' dev anOutput "Suc 0" xs] p
    by (cases r) (auto simp: x)
  with False show ?thesis
    by (auto simp: ddscubemap_def fail_with_def Let_def split: prod.splits option.splits)
qed

subsection \<open>Runs on the example inputs\<close>

lemma example_sides:
  "good_sides (six_sides (dxt1_header 4 3))"
  "length ((six_sides (dxt1_header 4 3))[i := x]) = 6"
  "i < 6 \<Longrightarrow> (six_sides (dxt1_header 4 3))[i := x] ! i = x"
  "0 < i \<Longrightarrow> hd ((six_sides (dxt1_header 4 3))[i := x]) = dds_file ''px.dds'' (dxt1_header 4 3) [1, 1]"
proof -
  show "good_sides (six_sides (dxt1_header 4 3))"
    by (rule good_sides_six_sides) (simp_all add: dxt1_header_simps)
  show "length ((six_sides (dxt1_header 4 3))[i := x]) = 6"
    by (simp add: six_sides_simps)
  show "(six_sides (dxt1_header 4 3))[i := x] ! i = x" if "i < 6"
    using that by (simp add: six_sides_simps)
  show "hd ((six_sides (dxt1_header 4 3))[i := x]) = dds_file ''px.dds'' (dxt1_header 4 3) [1, 1]"
    if "0 < i"
    using that by (cases i) (simp_all add: six_sides_def)
qed

lemma example_replaced:
  assumes "length (Reserved1 h) = 11" "i < 6"
  shows "length ((six_sides (dxt1_header 4 3))[i := dds_file p h bs]) = 6"
    "good_before ((six_sides (dxt1_header 4 3))[i := dds_file p h bs]) i"
    "contents ((six_sides (dxt1_header 4 3))[i := dds_file p h bs] ! i) =
       Some (magic @ bytes_of_DDSFileHeader h @ bs)"
    "path ((six_sides (dxt1_header 4 3))[i := dds_file p h bs] ! i) = p"
    "is_dds (magic @ bytes_of_DDSFileHeader h @ bs)"
    "file_header (magic @ bytes_of_DDSFileHeader h @ bs) = h"
    "0 < i \<Longrightarrow> input_header (hd ((six_sides (dxt1_header 4 3))[i := dds_file p h bs])) = dxt1_header 4 3"
  using assms
  by (simp_all add: example_sides six_sides_simps good_before_update dds_file_simps
      dxt1_header_simps)

lemma example_not_square:
  assumes "length (Reserved1 h) = 11" "i < 6" "valid_header h" "Width h \<noteq> Height h"
  shows "fst (ddscubemap reliable ((six_sides (dxt1_header 4 3))[i := dds_file p h bs]) ''cube.dds'')
     = Some (Return1 (NotSuitableForCubemap p))"
proof -
  note e = example_replaced [OF assms(1,2)]
  have c: "can_open reliable \<or> i = 0" and o: "''cube.dds'' \<noteq> []"
    by (simp_all add: reliable_def)
  have v: "valid_header (file_header (magic @ bytes_of_DDSFileHeader h @ bs))"
    and n: "Width (file_header (magic @ bytes_of_DDSFileHeader h @ bs))
        \<noteq> Height (file_header (magic @ bytes_of_DDSFileHeader h @ bs))"
    using assms(3,4) by (simp_all add: e(6))
  from ddscubemap_not_square [OF e(1) o assms(2) e(2) c e(3) e(5) v n] show ?thesis
    by (simp add: fail_with_def e(4))
qed

lemma example_not_valid:
  assumes "length (Reserved1 h) = 11" "i < 6" "\<not> valid_header h"
  shows "fst (ddscubemap reliable ((six_sides (dxt1_header 4 3))[i := dds_file p h bs]) ''cube.dds'')
     = Some (Return1 (NotValidDDS p))"
proof -
  note e = example_replaced [OF assms(1,2)]
  have c: "can_open reliable \<or> i = 0" and o: "''cube.dds'' \<noteq> []"
    by (simp_all add: reliable_def)
  have v: "\<not> valid_header (file_header (magic @ bytes_of_DDSFileHeader h @ bs))"
    using assms(3) by (simp add: e(6))
  from ddscubemap_not_valid [OF e(1) o assms(2) e(2) c e(3) e(5) v] show ?thesis
    by (simp add: fail_with_def e(4))
qed

lemma example_inconsistent:
  assumes "length (Reserved1 h) = 11" "0 < i" "i < 6" "valid_header h" "Width h = Height h"
    "Width h \<noteq> 4 \<or> Height h \<noteq> 4 \<or> FourCC (PixelFormatDef h) \<noteq> 0x31545844"
  shows "fst (ddscubemap reliable ((six_sides (dxt1_header 4 3))[i := dds_file p h bs]) ''cube.dds'')
     = Some (Return1 (InconsistentDefinition p))"
proof -
  note e = example_replaced [OF assms(1,3)]
  have c: "can_open reliable" and o: "''cube.dds'' \<noteq> []"
    by (simp_all add: reliable_def)
  have v: "valid_header (file_header (magic @ bytes_of_DDSFileHeader h @ bs))"
    and s: "Width (file_header (magic @ bytes_of_DDSFileHeader h @ bs))
        = Height (file_header (magic @ bytes_of_DDSFileHeader h @ bs))"
    using assms(4,5) by (simp_all add: e(6))
  have d: "Width (file_header (magic @ bytes_of_DDSFileHeader h @ bs))
        \<noteq> Width (input_header (hd ((six_sides (dxt1_header 4 3))[i := dds_file p h bs])))
     \<or> Height (file_header (magic @ bytes_of_DDSFileHeader h @ bs))
        \<noteq> Height (input_header (hd ((six_sides (dxt1_header 4 3))[i := dds_file p h bs])))
     \<or> FourCC (PixelFormatDef (file_header (magic @ bytes_of_DDSFileHeader h @ bs)))
        \<noteq> FourCC (PixelFormatDef
             (input_header (hd ((six_sides (dxt1_header 4 3))[i := dds_file p h bs]))))"
    using assms(6) by (simp add: e(6) e(7) [OF assms(2)] dxt1_header_simps)
  from ddscubemap_inconsistent [OF e(1) o assms(2,3) e(2) c e(3) e(5) v s d] show ?thesis
    by (simp add: fail_with_def e(4))
qed

section \<open>The claims\<close>

text \<open>
  Claim C1. When the six inputs are readable, carry the tag, have at least 128 bytes, a
  valid header (\<open>Size\<close> 124, pixel format \<open>Size\<close> 32, non-zero dimensions), are square and
  agree with the first side in width, height and format tag, and the result file can be
  opened, then the result file is the four bytes \<open>"DDS "\<close>, then the 124 bytes of the first
  side's header with \<open>0xFE00\<close> or-ed into \<open>Caps2\<close> (decoding them gives the first header with
  only \<open>Caps2\<close> changed; they are the bytes 4 to 127 of the first input except for the four
  bytes of \<open>Caps2\<close> at 112), then the bytes of each input from offset 128 on, in the order of
  the inputs; its length is 128 plus the sum of the payload lengths. The run returns 0 when
  closing the result succeeds.
\<close>

theorem cubemap_assembled:
  assumes "length anInput = 6" "anOutput \<noteq> []" "good_sides anInput" "can_open dev"
  shows "out_bytes (aResFile (snd (ddscubemap dev anInput anOutput))) = Some (assembled anInput)
     \<and> assembled anInput =
         [0x44, 0x44, 0x53, 0x20]
         @ bytes_of_DDSFileHeader
             ((input_header (anInput ! 0))
                \<lparr>Caps2 := Caps2 (input_header (anInput ! 0)) OR 0xFE00\<rparr>)
         @ concat (map (\<lambda>inp. drop 128 (input_bytes inp)) anInput)
     \<and> length (bytes_of_DDSFileHeader
             ((input_header (anInput ! 0))
                \<lparr>Caps2 := Caps2 (input_header (anInput ! 0)) OR 0xFE00\<rparr>)) = 124
     \<and> file_header (assembled anInput) =
         (input_header (anInput ! 0))\<lparr>Caps2 := Caps2 (input_header (anInput ! 0)) OR 0xFE00\<rparr>
     \<and> take 124 (drop 4 (assembled anInput)) =
         take 108 (drop 4 (input_bytes (anInput ! 0)))
         @ put_u32 (get_u32 (input_bytes (anInput ! 0)) 112 OR 0xFE00)
         @ take 12 (drop 116 (input_bytes (anInput ! 0)))
     \<and> length (assembled anInput) =
         128 + sum_list (map (\<lambda>inp. length (input_bytes inp) - 128) anInput)
     \<and> fst (ddscubemap dev anInput anOutput) =
         (if can_close dev then None else Some (Return1 (UnableToWrite anOutput)))"
proof -
  let ?h0 = "input_header (anInput ! 0)"
  let ?r = "?h0\<lparr>Caps2 := Caps2 ?h0 OR 0xFE00\<rparr>"
  have hd: "hd anInput = anInput ! 0"
    using assms(1) by (cases anInput) simp_all
  have r: "result_header (input_header (hd anInput)) = ?r"
    by (simp add: result_header_def DDSCompleteCubemap_def hd)
  have len: "length (Reserved1 ?r) = 11"
    by (simp add: length_Reserved1_input_header)
  have a: "assembled anInput = [0x44, 0x44, 0x53, 0x20] @ bytes_of_DDSFileHeader ?r
      @ concat (map (\<lambda>inp. drop 128 (input_bytes inp)) anInput)"
    by (simp add: assembled_def r magic_def payload_def)
  have "file_header (magic @ bytes_of_DDSFileHeader ?r
      @ concat (map (\<lambda>inp. drop 128 (input_bytes inp)) anInput)) = ?r"
    using len by (rule file_header_dds_bytes)
  then have f: "file_header (assembled anInput) = ?r"
    by (simp add: a magic_def)
  have l: "length (assembled anInput) =
      128 + sum_list (map (\<lambda>inp. length (input_bytes inp) - 128) anInput)"
    using length_assembled [of anInput]
    by (simp add: length_Reserved1_input_header payload_def)
  have "good_side (input_header (hd anInput)) (anInput ! 0)"
    using assms(1,3) by (cases anInput) (simp_all add: good_sides_def)
  then have "128 \<le> length (input_bytes (anInput ! 0))"
    by (rule good_side_bytes)
  then have "bytes_of_DDSFileHeader (result_header (file_header (input_bytes (anInput ! 0)))) =
      take 108 (drop 4 (input_bytes (anInput ! 0)))
      @ put_u32 (get_u32 (input_bytes (anInput ! 0)) 112 OR 0xFE00)
      @ take 12 (drop 116 (input_bytes (anInput ! 0)))"
    by (rule bytes_of_result_header)
  moreover have "take 124 (drop 4 (assembled anInput)) = bytes_of_DDSFileHeader ?r"
    using length_bytes_of_DDSFileHeader [OF len] by (simp add: a)
  ultimately have b: "take 124 (drop 4 (assembled anInput)) =
      take 108 (drop 4 (input_bytes (anInput ! 0)))
      @ put_u32 (get_u32 (input_bytes (anInput ! 0)) 112 OR 0xFE00)
      @ take 12 (drop 116 (input_bytes (anInput ! 0)))"
    using r by (simp add: input_header_def hd)
  note g = ddscubemap_good(1,2) [OF assms]
  note n = length_bytes_of_DDSFileHeader [OF len]
  from g(2) a n f b l g(1) show ?thesis
    by (intro conjI)
qed

theorem cubemap_assembled_witness:
  "length (six_sides (dxt1_header 4 3)) = 6 \<and> ''cube.dds'' \<noteq> []
   \<and> good_sides (six_sides (dxt1_header 4 3)) \<and> can_open reliable
   \<and> fst (ddscubemap reliable (six_sides (dxt1_header 4 3)) ''cube.dds'') = None
   \<and> out_bytes (aResFile (snd (ddscubemap reliable (six_sides (dxt1_header 4 3)) ''cube.dds''))) =
       Some ([0x44, 0x44, 0x53, 0x20]
             @ bytes_of_DDSFileHeader ((dxt1_header 4 3)\<lparr>Caps2 := 0xFE00\<rparr>)
             @ [1, 1, 2, 4, 4, 4, 5, 6])
   \<and> length (assembled (six_sides (dxt1_header 4 3))) = 136"
proof -
  have g: "good_sides (six_sides (dxt1_header 4 3))"
    by (rule good_sides_six_sides) (simp_all add: dxt1_header_simps)
  have l: "length (six_sides (dxt1_header 4 3)) = 6" and o: "''cube.dds'' \<noteq> []"
    and c: "can_open reliable"
    by (simp_all add: six_sides_simps reliable_def)
  have h: "input_header (six_sides (dxt1_header 4 3) ! 0) = dxt1_header 4 3"
    by (simp add: six_sides_def dds_file_simps dxt1_header_simps)
  have p: "concat (map (\<lambda>inp. drop 128 (input_bytes inp)) (six_sides (dxt1_header 4 3)))
      = [1, 1, 2, 4, 4, 4, 5, 6]"
    by (simp add: six_sides_def dds_file_simps(5) dxt1_header_simps flip: payload_def)
  have s: "sum_list (map (\<lambda>inp. length (input_bytes inp) - 128) (six_sides (dxt1_header 4 3))) = 8"
    by (simp add: six_sides_def dds_file_simps dxt1_header_simps
        length_bytes_of_DDSFileHeader magic_def)
  from cubemap_assembled [OF l o g c] show ?thesis
    using g l c by (simp add: h p s dxt1_header_simps reliable_def)
qed

text \<open>
  Claim C2. The source names the predicate \<open>IscompleteCubemap\<close> and documents \<open>0xFE00\<close> as
  the flag of a complete cubemap of six faces, which is what the claim says, but the test is
  \<open>(Caps2 & 0xFE00) != 0\<close>: it is true as soon as one of the seven bits is set. A header
  with \<open>Caps2 = 0x0200\<close> (cubemap, no face) and one with \<open>Caps2 = 0x0600\<close> (cubemap, one
  face) satisfy the predicate although neither holds the flag \<open>0xFE00\<close>.
\<close>

theorem IscompleteCubemap_accepts_partial_cubemap:
  "IscompleteCubemap ((dxt1_header 4 1)\<lparr>Caps2 := 0x0200\<rparr>)
     \<and> (0x0200 :: u32) AND DDSCompleteCubemap \<noteq> DDSCompleteCubemap
     \<and> IscompleteCubemap ((dxt1_header 4 1)\<lparr>Caps2 := 0x0600\<rparr>)
     \<and> (0x0600 :: u32) AND DDSCompleteCubemap \<noteq> DDSCompleteCubemap"
  by (simp add: IscompleteCubemap_def DDSCompleteCubemap_def)

text \<open>
  Claim C3. After every run that returns 0 the result file exists, starts with the tag, has
  at least 128 bytes, and the header decoded from its bytes 4 to 127 satisfies
  \<open>IscompleteCubemap\<close>, whatever \<open>Caps2\<close> the inputs had; in the example below no input
  header satisfies it.
\<close>

theorem result_is_complete_cubemap:
  assumes "fst (ddscubemap dev anInput anOutput) = None"
  shows "\<exists>out. out_bytes (aResFile (snd (ddscubemap dev anInput anOutput))) = Some out
     \<and> is_dds out \<and> IscompleteCubemap (file_header out)"
proof -
  from ddscubemap_continue [OF assms] obtain h rest where
    "length (Reserved1 h) = 11" "IscompleteCubemap h"
    "out_bytes (aResFile (snd (ddscubemap dev anInput anOutput))) =
       Some (magic @ bytes_of_DDSFileHeader h @ rest)"
    by blast
  then show ?thesis
    by (simp add: file_header_dds_bytes is_dds_dds_bytes)
qed

theorem result_is_complete_cubemap_witness:
  "fst (ddscubemap reliable (six_sides (dxt1_header 4 3)) ''cube.dds'') = None
   \<and> list_all (\<lambda>inp. \<not> IscompleteCubemap (input_header inp)) (six_sides (dxt1_header 4 3))
   \<and> (\<exists>out. out_bytes (aResFile (snd (ddscubemap reliable (six_sides (dxt1_header 4 3))
          ''cube.dds''))) = Some out
        \<and> is_dds out \<and> IscompleteCubemap (file_header out))"
proof -
  have g: "good_sides (six_sides (dxt1_header 4 3))"
    by (rule good_sides_six_sides) (simp_all add: dxt1_header_simps)
  have ok: "fst (ddscubemap reliable (six_sides (dxt1_header 4 3)) ''cube.dds'') = None"
    using ddscubemap_good(1) [OF _ _ g, of "''cube.dds''" reliable]
    by (simp add: six_sides_simps reliable_def)
  have "list_all (\<lambda>inp. \<not> IscompleteCubemap (input_header inp)) (six_sides (dxt1_header 4 3))"
    by (simp add: six_sides_def dds_file_simps dxt1_header_simps IscompleteCubemap_def)
  with ok result_is_complete_cubemap [OF ok] show ?thesis
    by simp
qed

text \<open>
  Claim C4. For all widths and heights the computed mip count is the number of sizes met by
  halving the larger dimension (integer division) down to and including 1. For a larger
  dimension \<open>2 ^ k\<close> it is \<open>1 + k\<close>, for any non-zero larger dimension \<open>D\<close> it is
  \<open>1 + floor (log2 D)\<close>; for 256 by 256 it is 9 and for 1 by 1 it is 1. The 32-bit counter
  does not wrap.
\<close>

theorem expectedMipCount_halving: 
  "unat (expectedMipCount w h) = halving_levels (unat (max w h))
   \<and> (\<forall>k<32. max w h = 2 ^ k \<longrightarrow> expectedMipCount w h = 1 + of_nat k)
   \<and> (0 < max w h \<longrightarrow>
        unat (expectedMipCount w h) = 1 + nat \<lfloor>log 2 (real (unat (max w h)))\<rfloor>)
   \<and> expectedMipCount 256 256 = 9 \<and> expectedMipCount 1 1 = 1"
proof (intro conjI allI impI)
  show "unat (expectedMipCount w h) = halving_levels (unat (max w h))"
    by (simp only: expectedMipCount_def max_dim unat_mip_loop_1)
next
  fix k :: nat
  assume "k < 32" "max w h = 2 ^ k"
  then show "expectedMipCount w h = 1 + of_nat k"
    by (simp only: expectedMipCount_def max_dim mip_loop_pow2)
next
  assume "0 < max w h"
  then have pos: "0 < unat (max w h)"
    by (simp add: word_less_nat_alt)
  then have "halving_levels (unat (max w h)) = floorlog 2 (unat (max w h))"
    by (rule halving_levels_floorlog)
  also have "\<dots> = 1 + nat \<lfloor>log 2 (real (unat (max w h)))\<rfloor>"
    using pos by (simp add: floorlog_def)
  finally show "unat (expectedMipCount w h) = 1 + nat \<lfloor>log 2 (real (unat (max w h)))\<rfloor>"
    by (simp only: expectedMipCount_def max_dim unat_mip_loop_1)
next
  show "expectedMipCount 256 256 = 9"
    by (simp add: expectedMipCount_def mip_loop.simps)
next
  show "expectedMipCount 1 1 = 1"
    by (simp add: expectedMipCount_def mip_loop.simps)
qed

theorem expectedMipCount_halving_witness:
  "(3::nat) < 32 \<and> max (8::u32) 2 = 2 ^ 3 \<and> 0 < max (8::u32) 2
   \<and> unat (expectedMipCount 8 2) = halving_levels 8
   \<and> expectedMipCount 8 2 = 4
   \<and> unat (expectedMipCount 8 2) = 1 + nat \<lfloor>log 2 (real (8::nat))\<rfloor>"
proof -
  note c = expectedMipCount_halving [of 8 2]
  have m: "max (8::u32) 2 = 2 ^ 3" and p: "0 < max (8::u32) 2"
    by simp_all
  from c have "\<forall>k<32. max (8::u32) 2 = 2 ^ k \<longrightarrow> expectedMipCount 8 2 = 1 + of_nat k"
    by (elim conjE)
  with m have "expectedMipCount 8 2 = 1 + of_nat 3"
    by (elim allE [of _ 3]) simp
  moreover from c p have "unat (expectedMipCount 8 2) = 1 + nat \<lfloor>log 2 (real (unat (max (8::u32) 2)))\<rfloor>"
    by (elim conjE) simp
  moreover from c have "unat (expectedMipCount 8 2) = halving_levels (unat (max (8::u32) 2))"
    by (elim conjE)
  ultimately show ?thesis
    using m p by simp
qed

text \<open>
  Claim C5. Let side \<open>i\<close> be reached (the sides before it are good, and the result file
  could be opened if \<open>i > 0\<close>) and decoded (it is readable, carries the tag and has at least
  128 bytes). If its header has \<open>Size \<noteq> 124\<close>, or pixel format \<open>Size \<noteq> 32\<close>, or width 0, or
  height 0, the run ends with the error \<open>is not valid DDS\<close> for that file. Conversely, when
  the header passes the four checks, processing that side never gives this error.
\<close>

theorem invalid_header_rejected:
  assumes "length anInput = 6" "anOutput \<noteq> []" "i < 6" "good_before anInput i"
    "can_open dev \<or> i = 0" "contents (anInput ! i) = Some buf" "is_dds buf"
  shows "(Size (file_header buf) \<noteq> 124 \<or> PF_Size (PixelFormatDef (file_header buf)) \<noteq> 32
            \<or> Width (file_header buf) = 0 \<or> Height (file_header buf) = 0
          \<longrightarrow> fst (ddscubemap dev anInput anOutput) =
                Some (Return1 (NotValidDDS (path (anInput ! i)))))
     \<and> (Size (file_header buf) = 124 \<and> PF_Size (PixelFormatDef (file_header buf)) = 32
            \<and> Width (file_header buf) \<noteq> 0 \<and> Height (file_header buf) \<noteq> 0
          \<longrightarrow> (\<forall>p. fst (process_side dev anOutput i (anInput ! i)
                          (state_before dev anOutput anInput i))
                   \<noteq> Some (Return1 (NotValidDDS p))))"
proof (intro conjI impI allI)
  assume "Size (file_header buf) \<noteq> 124 \<or> PF_Size (PixelFormatDef (file_header buf)) \<noteq> 32
            \<or> Width (file_header buf) = 0 \<or> Height (file_header buf) = 0"
  then have "\<not> valid_header (file_header buf)"
    by (auto simp: valid_header_def)
  from ddscubemap_not_valid [OF assms this] show
    "fst (ddscubemap dev anInput anOutput) = Some (Return1 (NotValidDDS (path (anInput ! i))))"
    by (simp add: fail_with_def)
next
  fix p
  let ?st = "state_before dev anOutput anInput i"
  assume "Size (file_header buf) = 124 \<and> PF_Size (PixelFormatDef (file_header buf)) = 32
            \<and> Width (file_header buf) \<noteq> 0 \<and> Height (file_header buf) \<noteq> 0"
  then have v: "valid_header (file_header buf)"
    by (simp add: valid_header_def)
  have "fst (check_side dev anOutput i (anInput ! i) buf (file_header buf) (fill_buffer buf ?st))
      \<noteq> Some (Return1 (NotValidDDS p))"
    using v
    by (auto simp: check_side_def emit_side_def valid_header_def Let_def fail_with_def
        write_payload_def split: option.splits)
  then show "fst (process_side dev anOutput i (anInput ! i) ?st) \<noteq> Some (Return1 (NotValidDDS p))"
    using assms(6,7) by (simp add: process_side_decoded)
qed

theorem invalid_header_rejected_witness:
  "length ((six_sides (dxt1_header 4 3))
       [3 := dds_file ''ny.dds'' ((dxt1_header 4 3)\<lparr>Size := 100\<rparr>) [4]]) = 6
   \<and> ''cube.dds'' \<noteq> [] \<and> (3::nat) < 6
   \<and> good_before ((six_sides (dxt1_header 4 3))
       [3 := dds_file ''ny.dds'' ((dxt1_header 4 3)\<lparr>Size := 100\<rparr>) [4]]) 3
   \<and> can_open reliable
   \<and> is_dds (magic @ bytes_of_DDSFileHeader ((dxt1_header 4 3)\<lparr>Size := 100\<rparr>) @ [4])
   \<and> Size (file_header (magic @ bytes_of_DDSFileHeader ((dxt1_header 4 3)\<lparr>Size := 100\<rparr>) @ [4]))
       \<noteq> 124
   \<and> fst (ddscubemap reliable ((six_sides (dxt1_header 4 3))
       [3 := dds_file ''ny.dds'' ((dxt1_header 4 3)\<lparr>Size := 100\<rparr>) [4]]) ''cube.dds'')
       = Some (Return1 (NotValidDDS ''ny.dds''))
   \<and> good_before (six_sides (dxt1_header 4 3)) 3
   \<and> valid_header (file_header (magic @ bytes_of_DDSFileHeader (dxt1_header 4 3) @ [4, 4, 4]))
   \<and> fst (process_side reliable ''cube.dds'' 3 (six_sides (dxt1_header 4 3) ! 3)
            (state_before reliable ''cube.dds'' (six_sides (dxt1_header 4 3)) 3))
       \<noteq> Some (Return1 (NotValidDDS ''ny.dds''))"
proof -
  let ?h = "(dxt1_header 4 3)\<lparr>Size := 100\<rparr>"
  let ?x = "dds_file ''ny.dds'' ?h [4]"
  let ?xs = "(six_sides (dxt1_header 4 3))[3 := ?x]"
  let ?buf = "magic @ bytes_of_DDSFileHeader ?h @ [4]"
  let ?ys = "six_sides (dxt1_header 4 3)"
  let ?good = "magic @ bytes_of_DDSFileHeader (dxt1_header 4 3) @ [4, 4, 4]"
  have r: "length (Reserved1 ?h) = 11" and r': "length (Reserved1 (dxt1_header 4 3)) = 11"
    by (simp_all add: dxt1_header_simps)
  have 1: "length ?xs = 6" and 2: "''cube.dds'' \<noteq> []" and 3: "(3::nat) < 6"
    and 4: "good_before ?xs 3" and 5: "can_open reliable \<or> (3::nat) = 0"
    and 6: "contents (?xs ! 3) = Some ?buf" and 7: "is_dds ?buf"
    and 8: "Size (file_header ?buf) \<noteq> 124" and 9: "path (?xs ! 3) = ''ny.dds''"
    using r
    by (simp_all add: example_sides six_sides_simps good_before_update reliable_def
        dds_file_simps)
  have c: "can_open reliable"
    by (simp add: reliable_def)
  from invalid_header_rejected [OF 1 2 3 4 5 6 7] 8
  have "fst (ddscubemap reliable ?xs ''cube.dds'') = Some (Return1 (NotValidDDS (path (?xs ! 3))))"
    by blast
  then have e: "fst (ddscubemap reliable ?xs ''cube.dds'') = Some (Return1 (NotValidDDS ''ny.dds''))"
    unfolding 9 .
  have "good_before (?ys[3 := ?ys ! 3]) 3"
    by (rule good_before_update) (rule example_sides)
  then have g4: "good_before ?ys 3"
    by simp
  have l1: "length ?ys = 6" and c6: "contents (?ys ! 3) = Some ?good" and d7: "is_dds ?good"
    using r' by (simp_all add: six_sides_def dds_file_simps)
  have f: "file_header ?good = dxt1_header 4 3"
    using r' by (rule file_header_dds_bytes)
  have v: "valid_header (file_header ?good)"
    unfolding f by (simp add: dxt1_header_simps)
  then have "Size (file_header ?good) = 124 \<and> PF_Size (PixelFormatDef (file_header ?good)) = 32
      \<and> Width (file_header ?good) \<noteq> 0 \<and> Height (file_header ?good) \<noteq> 0"
    by (simp add: valid_header_def)
  with invalid_header_rejected [OF l1 2 3 g4 5 c6 d7]
  have n: "fst (process_side reliable ''cube.dds'' 3 (?ys ! 3)
            (state_before reliable ''cube.dds'' ?ys 3)) \<noteq> Some (Return1 (NotValidDDS ''ny.dds''))"
    by blast
  from 1 2 3 4 c 7 8 e g4 v n show ?thesis
    by (intro conjI)
qed

text \<open>
  Claim C6 does not hold when the first file is empty. The vector then has no storage, and
  the comparison of four bytes, which comes before the size is looked at, reads through
  \<open>&aBuffer[0]\<close> where there is no memory: the run ends in that read and not with
  \<open>is not DDS\<close>. No result file is created. For every other file that is short or lacks
  the tag the claim holds (lemma \<open>short_or_untagged_side_rejected\<close>).
\<close>

theorem empty_first_side_reads_out_of_bounds:
  "fst (ddscubemap reliable
          ((six_sides (dxt1_header 4 3))[0 := \<lparr>path = ''px.dds'', contents = Some []\<rparr>])
          ''cube.dds'') = Some OutOfBoundsRead
   \<and> out_bytes (aResFile (snd (ddscubemap reliable
          ((six_sides (dxt1_header 4 3))[0 := \<lparr>path = ''px.dds'', contents = Some []\<rparr>])
          ''cube.dds''))) = None"
proof -
  let ?e = "\<lparr>path = ''px.dds'', contents = Some []\<rparr>"
  have "ddscubemap reliable ((six_sides (dxt1_header 4 3))[0 := ?e]) ''cube.dds'' =
      (Some OutOfBoundsRead, (fill_buffer [] init_state)\<lparr>read_beyond_aSize := True\<rparr>)"
    by (rule ddscubemap_empty_first) (simp_all add: six_sides_def)
  then show ?thesis
    by (simp add: init_state_def)
qed

theorem empty_first_side_reads_out_of_bounds_witness:
  "length ((six_sides (dxt1_header 4 3))[0 := \<lparr>path = ''px.dds'', contents = Some []\<rparr>]) = 6
   \<and> ''cube.dds'' \<noteq> []
   \<and> contents (((six_sides (dxt1_header 4 3))[0 := \<lparr>path = ''px.dds'', contents = Some []\<rparr>]) ! 0)
       = Some []
   \<and> fst (ddscubemap reliable
          ((six_sides (dxt1_header 4 3))[0 := \<lparr>path = ''px.dds'', contents = Some []\<rparr>])
          ''cube.dds'') \<noteq> Some (Return1 (NotDDS ''px.dds''))"
  using empty_first_side_reads_out_of_bounds by (simp add: six_sides_def)

text \<open>
  Claim C7, as amended. Let side \<open>i\<close> be reached and decoded, with a header that passes
  validation and whose width differs from its height. Then the run ends with the error
  \<open>is not suitable for cubemap\<close> for that file. The check comes after the mip comparison: the
  side's line, and the warning if the declared mip count is not the complete one, are printed
  before the error. It comes before the result is opened or the side is compared with the
  first one: the result file is as it was before the side, so it does not exist when
  \<open>i = 0\<close>, and for \<open>i > 0\<close> it holds the tag, the header and the payloads of the earlier
  sides only.
\<close>

theorem nonsquare_side_rejected:
  assumes "length anInput = 6" "anOutput \<noteq> []" "i < 6" "good_before anInput i"
    "can_open dev \<or> i = 0" "contents (anInput ! i) = Some buf" "is_dds buf"
    "valid_header (file_header buf)" "Width (file_header buf) \<noteq> Height (file_header buf)"
  shows "fst (ddscubemap dev anInput anOutput) =
           Some (Return1 (NotSuitableForCubemap (path (anInput ! i))))
     \<and> cerr (snd (ddscubemap dev anInput anOutput)) =
           sides_log 0 (take i anInput) @ side_log i (file_header buf)
             @ [Error (NotSuitableForCubemap (path (anInput ! i)))]
     \<and> aResFile (snd (ddscubemap dev anInput anOutput)) =
           aResFile (state_before dev anOutput anInput i)
     \<and> (i = 0 \<longrightarrow> out_bytes (aResFile (snd (ddscubemap dev anInput anOutput))) = None)
     \<and> (0 < i \<longrightarrow> out_bytes (aResFile (snd (ddscubemap dev anInput anOutput))) =
           Some (assembled (take i anInput)))"
proof -
  note s = state_before_facts [OF assms(4) _ assms(5), of anOutput]
  from ddscubemap_not_square [OF assms] s assms(1,3) show ?thesis
    by (simp add: fail_with_def)
qed

theorem nonsquare_side_rejected_witness:
  "length ((six_sides (dxt1_header 4 3))
       [2 := dds_file ''py.dds'' ((dxt1_header 4 3)\<lparr>Width := 8\<rparr>) []]) = 6
   \<and> ''cube.dds'' \<noteq> [] \<and> (2::nat) < 6
   \<and> good_before ((six_sides (dxt1_header 4 3))
       [2 := dds_file ''py.dds'' ((dxt1_header 4 3)\<lparr>Width := 8\<rparr>) []]) 2
   \<and> can_open reliable
   \<and> is_dds (magic @ bytes_of_DDSFileHeader ((dxt1_header 4 3)\<lparr>Width := 8\<rparr>))
   \<and> valid_header (file_header (magic @ bytes_of_DDSFileHeader ((dxt1_header 4 3)\<lparr>Width := 8\<rparr>)))
   \<and> fst (ddscubemap reliable ((six_sides (dxt1_header 4 3))
       [2 := dds_file ''py.dds'' ((dxt1_header 4 3)\<lparr>Width := 8\<rparr>) []]) ''cube.dds'')
       = Some (Return1 (NotSuitableForCubemap ''py.dds''))
   \<and> out_bytes (aResFile (snd (ddscubemap reliable ((six_sides (dxt1_header 4 3))
       [2 := dds_file ''py.dds'' ((dxt1_header 4 3)\<lparr>Width := 8\<rparr>) []]) ''cube.dds'')))
       = Some (magic @ bytes_of_DDSFileHeader (result_header (dxt1_header 4 3)) @ [1, 1, 2])"
proof -
  let ?h = "(dxt1_header 4 3)\<lparr>Width := 8\<rparr>"
  let ?x = "dds_file ''py.dds'' ?h []"
  let ?xs = "(six_sides (dxt1_header 4 3))[2 := ?x]"
  let ?buf = "magic @ bytes_of_DDSFileHeader ?h"
  have r: "length (Reserved1 ?h) = 11" "length (Reserved1 (dxt1_header 4 3)) = 11"
    by (simp_all add: dxt1_header_simps)
  have 1: "length ?xs = 6" and 2: "''cube.dds'' \<noteq> []" and 3: "(2::nat) < 6"
    and 4: "good_before ?xs 2" and 5: "can_open reliable \<or> (2::nat) = 0"
    and 6: "contents (?xs ! 2) = Some ?buf" and 7: "is_dds ?buf"
    and 9: "path (?xs ! 2) = ''py.dds''"
    using r(1)
    by (simp_all add: example_sides six_sides_simps good_before_update reliable_def
        dds_file_simps dds_bytes_nil)
  have f: "file_header ?buf = ?h"
    using r(1) by (rule dds_bytes_nil)
  have 8: "valid_header (file_header ?buf)" and 10: "Width (file_header ?buf) \<noteq> Height (file_header ?buf)"
    unfolding f by (simp_all add: valid_header_def dxt1_header_def)
  have a: "assembled (take 2 ?xs) = magic @ bytes_of_DDSFileHeader (result_header (dxt1_header 4 3)) @ [1, 1, 2]"
    using r(2) by (simp add: assembled_def six_sides_def dds_file_simps payload_dds_bytes)
  have c: "can_open reliable"
    by (simp add: reliable_def)
  from nonsquare_side_rejected [OF 1 2 3 4 5 6 7 8 10] have
    e: "fst (ddscubemap reliable ?xs ''cube.dds'') =
          Some (Return1 (NotSuitableForCubemap (path (?xs ! 2))))"
    and o: "(0::nat) < 2 \<longrightarrow>
          out_bytes (aResFile (snd (ddscubemap reliable ?xs ''cube.dds''))) =
            Some (assembled (take 2 ?xs))"
    by blast+
  from e have e': "fst (ddscubemap reliable ?xs ''cube.dds'') =
      Some (Return1 (NotSuitableForCubemap ''py.dds''))"
    unfolding 9 .
  from o have o': "out_bytes (aResFile (snd (ddscubemap reliable ?xs ''cube.dds''))) =
      Some (magic @ bytes_of_DDSFileHeader (result_header (dxt1_header 4 3)) @ [1, 1, 2])"
    unfolding a by simp
  from 1 2 3 4 c 7 8 e' o' show ?thesis
    by blast
qed

text \<open>
  Claim C7 as stated fails. A third side that is decoded with width 4 and height 0 has a
  width that differs from its height, but the run ends with \<open>is not valid DDS\<close>: the
  header is validated before the side is tested for being square.
\<close>

theorem nonsquare_invalid_side_is_not_valid:
  "input_header (dds_file ''py.dds'' ((dxt1_header 4 3)\<lparr>Height := 0\<rparr>) [3])
       = (dxt1_header 4 3)\<lparr>Height := 0\<rparr>
   \<and> Width ((dxt1_header 4 3)\<lparr>Height := 0\<rparr>) \<noteq> Height ((dxt1_header 4 3)\<lparr>Height := 0\<rparr>)
   \<and> fst (ddscubemap reliable
          ((six_sides (dxt1_header 4 3))
             [2 := dds_file ''py.dds'' ((dxt1_header 4 3)\<lparr>Height := 0\<rparr>) [3]]) ''cube.dds'')
     = Some (Return1 (NotValidDDS ''py.dds''))"
proof (intro conjI)
  show "input_header (dds_file ''py.dds'' ((dxt1_header 4 3)\<lparr>Height := 0\<rparr>) [3])
       = (dxt1_header 4 3)\<lparr>Height := 0\<rparr>"
    by (rule dds_file_simps) (simp add: dxt1_header_simps)
  show "Width ((dxt1_header 4 3)\<lparr>Height := 0\<rparr>) \<noteq> Height ((dxt1_header 4 3)\<lparr>Height := 0\<rparr>)"
    by (simp add: dxt1_header_simps)
  show "fst (ddscubemap reliable
          ((six_sides (dxt1_header 4 3))
             [2 := dds_file ''py.dds'' ((dxt1_header 4 3)\<lparr>Height := 0\<rparr>) [3]]) ''cube.dds'')
     = Some (Return1 (NotValidDDS ''py.dds''))"
    by (rule example_not_valid) (simp_all add: dxt1_header_def valid_header_def)
qed

text \<open>
  Claim C8, as amended. Let side \<open>i > 0\<close> be reached and decoded, with a header that passes
  validation. If the side is not square, the run ends with \<open>is not suitable for cubemap\<close> and
  the side is not compared with the first one. If it is square and differs from the first
  side's header in width, height or format tag, the run ends with the error
  \<open>has inconsistent definition\<close>, which names the file and no field, after the side's line
  was printed and with the result file untouched by this side. If it is square and agrees in
  the three, the side passes, whatever its other fields are, and its payload is appended to
  the result.
\<close>

theorem inconsistent_side_rejected:
  assumes "length anInput = 6" "anOutput \<noteq> []" "0 < i" "i < 6" "good_before anInput i"
    "can_open dev" "contents (anInput ! i) = Some buf" "is_dds buf"
    "valid_header (file_header buf)"
  shows "(Width (file_header buf) \<noteq> Height (file_header buf)
          \<longrightarrow> fst (ddscubemap dev anInput anOutput) =
                Some (Return1 (NotSuitableForCubemap (path (anInput ! i)))))
     \<and> (Width (file_header buf) = Height (file_header buf)
          \<and> (Width (file_header buf) \<noteq> Width (input_header (anInput ! 0))
              \<or> Height (file_header buf) \<noteq> Height (input_header (anInput ! 0))
              \<or> FourCC (PixelFormatDef (file_header buf))
                   \<noteq> FourCC (PixelFormatDef (input_header (anInput ! 0))))
          \<longrightarrow> fst (ddscubemap dev anInput anOutput) =
                Some (Return1 (InconsistentDefinition (path (anInput ! i))))
              \<and> cerr (snd (ddscubemap dev anInput anOutput)) =
                  sides_log 0 (take i anInput) @ side_log i (file_header buf)
                    @ [Error (InconsistentDefinition (path (anInput ! i)))]
              \<and> aResFile (snd (ddscubemap dev anInput anOutput)) =
                  aResFile (state_before dev anOutput anInput i)
              \<and> out_bytes (aResFile (snd (ddscubemap dev anInput anOutput))) =
                  Some (assembled (take i anInput)))
     \<and> (Width (file_header buf) = Height (file_header buf)
          \<and> Width (file_header buf) = Width (input_header (anInput ! 0))
          \<and> Height (file_header buf) = Height (input_header (anInput ! 0))
          \<and> FourCC (PixelFormatDef (file_header buf))
               = FourCC (PixelFormatDef (input_header (anInput ! 0)))
          \<longrightarrow> for_sides dev anOutput 0 (take (Suc i) anInput) init_state =
                (None, state_before dev anOutput anInput (Suc i))
              \<and> out_bytes (aResFile (state_before dev anOutput anInput (Suc i))) =
                  Some (assembled (take i anInput) @ payload buf))"
proof (intro conjI impI)
  have hd: "hd anInput = anInput ! 0"
    using assms(1) by (cases anInput) simp_all
  have c: "can_open dev \<or> i = 0"
    using assms(6) by simp
  note s = state_before_facts [OF assms(5) _ c, of anOutput]
  {
    assume "Width (file_header buf) \<noteq> Height (file_header buf)"
    from ddscubemap_not_square [OF assms(1,2,4,5) c assms(7,8,9) this]
    show "fst (ddscubemap dev anInput anOutput) =
        Some (Return1 (NotSuitableForCubemap (path (anInput ! i))))"
      by (simp add: fail_with_def)
  }
  {
    assume d: "Width (file_header buf) = Height (file_header buf)
          \<and> (Width (file_header buf) \<noteq> Width (input_header (anInput ! 0))
              \<or> Height (file_header buf) \<noteq> Height (input_header (anInput ! 0))
              \<or> FourCC (PixelFormatDef (file_header buf))
                   \<noteq> FourCC (PixelFormatDef (input_header (anInput ! 0))))"
    with assms have r: "ddscubemap dev anInput anOutput =
     fail_with (InconsistentDefinition (path (anInput ! i)))
       ((fill_buffer buf (state_before dev anOutput anInput i))
          \<lparr>anInHeaders := (anInHeaders (state_before dev anOutput anInput i))(i \<mapsto> file_header buf),
           cerr := cerr (state_before dev anOutput anInput i) @ side_log i (file_header buf)\<rparr>)"
      by (intro ddscubemap_inconsistent) (simp_all add: hd)
    show "fst (ddscubemap dev anInput anOutput) =
        Some (Return1 (InconsistentDefinition (path (anInput ! i))))"
      by (simp add: r fail_with_def)
    show "cerr (snd (ddscubemap dev anInput anOutput)) =
        sides_log 0 (take i anInput) @ side_log i (file_header buf)
          @ [Error (InconsistentDefinition (path (anInput ! i)))]"
      using s(1) assms(1,4) by (simp add: r fail_with_def)
    show "aResFile (snd (ddscubemap dev anInput anOutput)) =
        aResFile (state_before dev anOutput anInput i)"
      by (simp add: r fail_with_def)
    show "out_bytes (aResFile (snd (ddscubemap dev anInput anOutput))) =
        Some (assembled (take i anInput))"
      using s(3) assms(1,3,4) by (simp add: r fail_with_def)
  }
  assume eq: "Width (file_header buf) = Height (file_header buf)
          \<and> Width (file_header buf) = Width (input_header (anInput ! 0))
          \<and> Height (file_header buf) = Height (input_header (anInput ! 0))
          \<and> FourCC (PixelFormatDef (file_header buf))
               = FourCC (PixelFormatDef (input_header (anInput ! 0)))"
  have t: "take (Suc i) anInput = take i anInput @ [anInput ! i]"
    using assms(1,4) by (simp add: take_Suc_conv_app_nth)
  have "good_side (input_header (hd anInput)) (anInput ! i)"
    using assms(7-9) eq by (auto simp: good_side_def hd)
  then have g: "good_before anInput (Suc i)"
    using assms(5) by (simp add: good_before_def t)
  note s' = state_before_good [OF g _ _ assms(6), of anOutput]
  show "for_sides dev anOutput 0 (take (Suc i) anInput) init_state =
      (None, state_before dev anOutput anInput (Suc i))"
    using assms(1,4) by (intro s') simp_all
  have "out_bytes (aResFile (state_before dev anOutput anInput (Suc i))) =
      Some (assembled (take (Suc i) anInput))"
    using assms(1,4) by (intro s') simp_all
  moreover have "assembled (take (Suc i) anInput) = assembled (take i anInput) @ payload buf"
  proof -
    have "hd (take (Suc i) anInput) = hd anInput" "hd (take i anInput) = hd anInput"
      using assms(1,3) by (cases anInput; cases i; simp)+
    moreover have "input_bytes (anInput ! i) = buf"
      using assms(7) by (simp add: input_bytes_def)
    ultimately show ?thesis
      unfolding assembled_def by (simp add: t)
  qed
  ultimately show "out_bytes (aResFile (state_before dev anOutput anInput (Suc i))) =
      Some (assembled (take i anInput) @ payload buf)"
    by simp
qed

theorem inconsistent_side_rejected_witness:
  "length ((six_sides (dxt1_header 4 3))[2 := dds_file ''py.dds'' (dxt1_header 8 3) [3]]) = 6
   \<and> ''cube.dds'' \<noteq> [] \<and> (0::nat) < 2 \<and> (2::nat) < 6
   \<and> good_before ((six_sides (dxt1_header 4 3))[2 := dds_file ''py.dds'' (dxt1_header 8 3) [3]]) 2
   \<and> can_open reliable
   \<and> is_dds (magic @ bytes_of_DDSFileHeader (dxt1_header 8 3) @ [3])
   \<and> valid_header (dxt1_header 8 3) \<and> Width (dxt1_header 8 3) = Height (dxt1_header 8 3)
   \<and> Width (dxt1_header 8 3) \<noteq> Width (dxt1_header 4 3)
   \<and> fst (ddscubemap reliable
        ((six_sides (dxt1_header 4 3))[2 := dds_file ''py.dds'' (dxt1_header 8 3) [3]]) ''cube.dds'')
       = Some (Return1 (InconsistentDefinition ''py.dds''))"
proof -
  let ?h = "dxt1_header 8 3"
  let ?xs = "(six_sides (dxt1_header 4 3))[2 := dds_file ''py.dds'' ?h [3]]"
  let ?buf = "magic @ bytes_of_DDSFileHeader ?h @ [3]"
  have r: "length (Reserved1 ?h) = 11"
    by (simp add: dxt1_header_simps)
  have lt: "(2::nat) < 6"
    by simp
  note e = example_replaced [OF r lt]
  have 1: "length ?xs = 6" and 5: "good_before ?xs 2" and 7: "contents (?xs ! 2) = Some ?buf"
    and 8: "is_dds ?buf" and f: "file_header ?buf = ?h" and p: "path (?xs ! 2) = ''py.dds''"
    using e by simp_all
  have h0: "input_header (?xs ! 0) = dxt1_header 4 3"
    by (simp add: six_sides_def dds_file_simps dxt1_header_simps)
  have 2: "''cube.dds'' \<noteq> []" and 3: "(0::nat) < 2" and 4: "(2::nat) < 6"
    and 6: "can_open reliable"
    by (simp_all add: reliable_def)
  have 9: "valid_header (file_header ?buf)"
    and v: "valid_header ?h" and sq: "Width ?h = Height ?h"
    and ne: "Width ?h \<noteq> Width (dxt1_header 4 3)"
    unfolding f by (simp_all add: dxt1_header_simps)
  from sq ne have d: "Width (file_header ?buf) = Height (file_header ?buf)
      \<and> (Width (file_header ?buf) \<noteq> Width (input_header (?xs ! 0))
      \<or> Height (file_header ?buf) \<noteq> Height (input_header (?xs ! 0))
      \<or> FourCC (PixelFormatDef (file_header ?buf))
           \<noteq> FourCC (PixelFormatDef (input_header (?xs ! 0))))"
    unfolding f h0 by simp
  from inconsistent_side_rejected [OF 1 2 3 4 5 6 7 8 9] d
  have "fst (ddscubemap reliable ?xs ''cube.dds'') =
      Some (Return1 (InconsistentDefinition (path (?xs ! 2))))"
    by blast
  then have "fst (ddscubemap reliable ?xs ''cube.dds'') =
      Some (Return1 (InconsistentDefinition ''py.dds''))"
    unfolding p .
  with 1 2 3 4 5 6 8 v sq ne show ?thesis
    by blast
qed

text \<open>
  Claim C8 as stated fails. With a third side that differs from the first in width only
  (8 by 4 against 4 by 4, all else equal) the run ends with \<open>is not suitable for cubemap\<close>,
  not with the inconsistency error, because the side is no longer square. And the
  inconsistency error names no field: a third side of another size (8 by 8) and a third
  side of another format tag give the same error, which carries the file's path only.
\<close>

theorem inconsistent_error_names_no_field:
  "fst (ddscubemap reliable
          ((six_sides (dxt1_header 4 3))
             [2 := dds_file ''py.dds'' ((dxt1_header 4 3)\<lparr>Width := 8\<rparr>) [3]]) ''cube.dds'')
     = Some (Return1 (NotSuitableForCubemap ''py.dds''))
   \<and> fst (ddscubemap reliable
          ((six_sides (dxt1_header 4 3))
             [2 := dds_file ''py.dds'' (dxt1_header 8 3) [3]]) ''cube.dds'')
     = Some (Return1 (InconsistentDefinition ''py.dds''))
   \<and> fst (ddscubemap reliable
          ((six_sides (dxt1_header 4 3))
             [2 := dds_file ''py.dds''
                ((dxt1_header 4 3)\<lparr>PixelFormatDef :=
                   (PixelFormatDef (dxt1_header 4 3))\<lparr>FourCC := 0x35545844\<rparr>\<rparr>) [3]]) ''cube.dds'')
     = Some (Return1 (InconsistentDefinition ''py.dds''))"
proof (intro conjI)
  show "fst (ddscubemap reliable
          ((six_sides (dxt1_header 4 3))
             [2 := dds_file ''py.dds'' ((dxt1_header 4 3)\<lparr>Width := 8\<rparr>) [3]]) ''cube.dds'')
     = Some (Return1 (NotSuitableForCubemap ''py.dds''))"
    by (rule example_not_square) (simp_all add: dxt1_header_def valid_header_def)
  show "fst (ddscubemap reliable
          ((six_sides (dxt1_header 4 3))
             [2 := dds_file ''py.dds'' (dxt1_header 8 3) [3]]) ''cube.dds'')
     = Some (Return1 (InconsistentDefinition ''py.dds''))"
    by (rule example_inconsistent) (simp_all add: dxt1_header_def valid_header_def)
  show "fst (ddscubemap reliable
          ((six_sides (dxt1_header 4 3))
             [2 := dds_file ''py.dds''
                ((dxt1_header 4 3)\<lparr>PixelFormatDef :=
                   (PixelFormatDef (dxt1_header 4 3))\<lparr>FourCC := 0x35545844\<rparr>\<rparr>) [3]]) ''cube.dds'')
     = Some (Return1 (InconsistentDefinition ''py.dds''))"
    by (rule example_inconsistent) (simp_all add: dxt1_header_def valid_header_def)
qed



text \<open>
  Claim C10. The comparison with the tag reads four bytes through the start of the buffer
  before the size is compared with 128. Processing a side reads beyond \<open>aSize\<close> exactly when
  the file was read and is shorter than 4 bytes: for such a file the comparison goes past
  the end of the buffer although the size check would have rejected the file, and for a file
  of at least 4 bytes every read of the side (the comparison, the header, the payload) is in
  bounds. The read beyond \<open>aSize\<close> finds no memory at all, and ends the run, exactly when the
  file is empty and the vector has no storage yet.
\<close>

theorem magic_comparison_bounds:
  "read_beyond_aSize (snd (process_side dev anOutput aSide inp st)) =
     (read_beyond_aSize st
      \<or> (case contents inp of None \<Rightarrow> False | Some aBuffer \<Rightarrow> length aBuffer < 4))
   \<and> (fst (process_side dev anOutput aSide inp st) = Some OutOfBoundsRead) =
     (case contents inp of None \<Rightarrow> False
      | Some aBuffer \<Rightarrow> aBuffer = [] \<and> aBufferStorage st = [])"
  using process_side_beyond_iff [of dev anOutput aSide inp st]
    process_side_out_of_bounds_iff [of dev anOutput aSide inp st]
  by (intro conjI)

theorem magic_comparison_bounds_witness:
  "contents \<lparr>path = ''px.dds'', contents = Some [0x44, 0x44, 0x53]\<rparr> = Some [0x44, 0x44, 0x53]
   \<and> length [0x44, 0x44, 0x53 :: byte] < 4 \<and> \<not> read_beyond_aSize init_state
   \<and> read_beyond_aSize (snd (process_side reliable ''cube.dds'' 0
            \<lparr>path = ''px.dds'', contents = Some [0x44, 0x44, 0x53]\<rparr> init_state))
   \<and> fst (process_side reliable ''cube.dds'' 0
            \<lparr>path = ''px.dds'', contents = Some [0x44, 0x44, 0x53]\<rparr> init_state)
       \<noteq> Some OutOfBoundsRead
   \<and> \<not> length [0x44, 0x44, 0x53, 0x20 :: byte] < 4
   \<and> \<not> read_beyond_aSize (snd (process_side reliable ''cube.dds'' 0
            \<lparr>path = ''px.dds'', contents = Some [0x44, 0x44, 0x53, 0x20]\<rparr> init_state))
   \<and> aBufferStorage init_state = []
   \<and> fst (process_side reliable ''cube.dds'' 0
            \<lparr>path = ''px.dds'', contents = Some []\<rparr> init_state)
       = Some OutOfBoundsRead"
  using magic_comparison_bounds [of reliable "''cube.dds''" 0
      "\<lparr>path = ''px.dds'', contents = Some [0x44, 0x44, 0x53]\<rparr>" init_state]
    magic_comparison_bounds [of reliable "''cube.dds''" 0
      "\<lparr>path = ''px.dds'', contents = Some [0x44, 0x44, 0x53, 0x20]\<rparr>" init_state]
    magic_comparison_bounds [of reliable "''cube.dds''" 0
      "\<lparr>path = ''px.dds'', contents = Some []\<rparr>" init_state]
  by (simp add: init_state_def)
end
